theory Spec2Isabelle
  imports Main
begin

chapter \<open>Definitions\<close>

section \<open>Column letters\<close>

text \<open>
  The posting stage (\<^verbatim>\<open>toColLetter\<close>) takes a 0-based column index, the other stages
  (\<^verbatim>\<open>columnNumberToLetter\<close>) a 1-based column number. Both are while loops that
  prepend one letter per round; the loop variable is a non-negative integer, modelled as
  \<^typ>\<open>nat\<close>. \<^verbatim>\<open>String.fromCharCode(65 + r)\<close> is \<^term>\<open>char_of (65 + r)\<close>.
\<close>

function toColLetter_loop :: "nat \<Rightarrow> string \<Rightarrow> string" where
  "toColLetter_loop n s =
     (if n > 0
      then (let r = (n - 1) mod 26
            in toColLetter_loop ((n - 1) div 26) (char_of (65 + r) # s))
      else s)"
  by pat_completeness auto
termination
  by (relation "measure fst") (auto intro: le_less_trans [OF div_le_dividend])

declare toColLetter_loop.simps [simp del]

definition toColLetter :: "nat \<Rightarrow> string" where
  "toColLetter colIndex = toColLetter_loop (colIndex + 1) []"

function columnNumberToLetter_loop :: "nat \<Rightarrow> string \<Rightarrow> string" where
  "columnNumberToLetter_loop num letter =
     (if num > 0
      then (let md = (num - 1) mod 26
            in columnNumberToLetter_loop ((num - md) div 26) (char_of (65 + md) # letter))
      else letter)"
  by pat_completeness auto
termination
proof (relation "measure fst")
  show "wf (measure fst)" by simp
next
  fix num :: nat and letter :: string and md :: nat
  assume "0 < num" and "md = (num - 1) mod 26"
  then have "(num - md) div 26 < num"
    by (simp add: div_less_iff_less_mult)
  then show "(((num - md) div 26, char_of (65 + md) # letter), (num, letter)) \<in> measure fst"
    by simp
qed

declare columnNumberToLetter_loop.simps [simp del]

definition columnNumberToLetter :: "nat \<Rightarrow> string" where
  "columnNumberToLetter num = columnNumberToLetter_loop num []"

text \<open>
  The reading of a column name as a number, the way a spreadsheet numbers its columns
  (bijective base 26: A = 1, ..., Z = 26, AA = 27). Used to state what the helpers
  compute; it is not part of the program.
\<close>

definition colValue :: "string \<Rightarrow> nat" where
  "colValue s = foldl (\<lambda>a c. a * 26 + (of_char c - 64)) 0 s"

definition isUpperLetter :: "char \<Rightarrow> bool" where
  "isUpperLetter c = (65 \<le> (of_char c :: nat) \<and> (of_char c :: nat) \<le> 90)"

section \<open>The control server: process supervisor and scheduler\<close>

text \<open>
  The server is single-threaded: every request handler, child-process \<^verbatim>\<open>close\<close> callback and
  timer callback runs to completion before the next one starts, and the continuation of an
  \<^verbatim>\<open>await\<close> runs as soon as the awaited promise settles, before any other callback. So the
  server is a transition system over its three global variables and what the runtime
  holds for it: the spawned children whose \<^verbatim>\<open>close\<close> event is still to come, and the armed
  timers. Child processes and \<^verbatim>\<open>Timeout\<close> objects are identified by numbers handed out in
  order of creation. A spawned child is taken to start (the command is \<^verbatim>\<open>node\<close> itself) and
  stays among the children until its \<^verbatim>\<open>close\<close> event is delivered, also after it has been sent
  the interrupt signal. The log events that the handlers emit change none of this state
  and are left out.
\<close>

text \<open>Who awaits a run: the \<^verbatim>\<open>/api/run\<close> handler, or \<^verbatim>\<open>runScheduledLoop\<close> with its interval.\<close>

datatype origin = Manual | Loop int

fun isLoop :: "origin \<Rightarrow> bool" where
  "isLoop Manual = False"
| "isLoop (Loop _) = True"

record server =
  activeChildProcess :: "nat option"
  scheduleTimeout :: "nat option"
  isScheduled :: bool
  children :: "(nat \<times> string \<times> origin) list"
  timers :: "(nat \<times> int) list"
  signalled :: "nat list"
  nextPid :: nat
  nextTimer :: nat

definition init :: server where
  "init = \<lparr> activeChildProcess = None, scheduleTimeout = None, isScheduled = False,
            children = [], timers = [], signalled = [], nextPid = 0, nextTimer = 0 \<rparr>"

text \<open>
  \<^verbatim>\<open>runScript\<close> up to the point where it returns its promise: it spawns the child and
  stores it in the handle slot, whatever the slot held. The second argument records who
  awaits the promise.
\<close>

definition runScript :: "string \<Rightarrow> origin \<Rightarrow> server \<Rightarrow> server" where
  "runScript scriptName who s =
     s\<lparr> activeChildProcess := Some (nextPid s),
        children := children s @ [(nextPid s, scriptName, who)],
        nextPid := nextPid s + 1 \<rparr>"

definition allowedScripts :: "string list" where
  "allowedScripts =
     [''0.oauth.js'', ''0.1.createsheetlayout.js'', ''0.2refreshfbtoken.js'',
      ''1.gencontent.js'', ''2.genimage.js'', ''3.embedlogo.js'', ''4.embedtxt.js'',
      ''5.post2fbgen3.js'', ''mainrunner.js'']"

text \<open>The handler of \<^verbatim>\<open>POST /api/run\<close>, up to its \<^verbatim>\<open>await\<close>.\<close>

definition postRun :: "string \<Rightarrow> server \<Rightarrow> server" where
  "postRun script s =
     (if script \<notin> set allowedScripts then s else runScript script Manual s)"

text \<open>\<^verbatim>\<open>clearTimeout\<close> disarms a timer; the variable that held it is not touched.\<close>

definition clearTimeout :: "nat \<Rightarrow> server \<Rightarrow> server" where
  "clearTimeout t s = s\<lparr> timers := filter (\<lambda>(i, _). i \<noteq> t) (timers s) \<rparr>"

text \<open>\<^verbatim>\<open>runScheduledLoop\<close> up to its \<^verbatim>\<open>await\<close>, and from there on once the run has settled.\<close>

definition runScheduledLoop :: "int \<Rightarrow> server \<Rightarrow> server" where
  "runScheduledLoop intervalMinutes s =
     (if \<not> isScheduled s then s
      else runScript ''mainrunner.js'' (Loop intervalMinutes) s)"

definition runScheduledLoop_resume :: "int \<Rightarrow> server \<Rightarrow> server" where
  "runScheduledLoop_resume intervalMinutes s =
     (if isScheduled s
      then s\<lparr> scheduleTimeout := Some (nextTimer s),
              timers := timers s @ [(nextTimer s, intervalMinutes)],
              nextTimer := nextTimer s + 1 \<rparr>
      else s)"

text \<open>
  The body field \<^verbatim>\<open>interval\<close> of \<^verbatim>\<open>POST /api/schedule\<close> is an integer or absent; it is
  falsy when absent or 0.
\<close>

definition falsy :: "int option \<Rightarrow> bool" where
  "falsy interval = (case interval of None \<Rightarrow> True | Some i \<Rightarrow> i = 0)"

definition clearScheduleTimeout :: "server \<Rightarrow> server" where
  "clearScheduleTimeout s =
     (case scheduleTimeout s of None \<Rightarrow> s | Some t \<Rightarrow> clearTimeout t s)"

definition postSchedule :: "int option \<Rightarrow> server \<Rightarrow> server" where
  "postSchedule interval s =
     (let s1 = clearScheduleTimeout (s\<lparr> isScheduled := False \<rparr>)
      in if falsy interval then s1
         else runScheduledLoop (the interval) (s1\<lparr> isScheduled := True \<rparr>))"

definition postStop :: "server \<Rightarrow> server" where
  "postStop s =
     (let s1 = (if isScheduled s \<or> scheduleTimeout s \<noteq> None
                then clearScheduleTimeout (s\<lparr> isScheduled := False \<rparr>)
                else s)
      in case activeChildProcess s1 of
           Some p \<Rightarrow> s1\<lparr> signalled := signalled s1 @ [p], activeChildProcess := None \<rparr>
         | None \<Rightarrow> s1)"

text \<open>
  The \<^verbatim>\<open>close\<close> callback of a child, followed by the continuation of whoever awaited the
  run. The callback clears the handle slot, whichever child it belongs to. The exit code
  decides between resolve and reject; \<^verbatim>\<open>runScheduledLoop\<close> continues the same way after
  both, and the \<^verbatim>\<open>/api/run\<close> handler only answers its request.
\<close>

definition onClose :: "nat \<Rightarrow> int \<Rightarrow> server \<Rightarrow> server" where
  "onClose pid code s =
     (case filter (\<lambda>(p, _). p = pid) (children s) of
        [] \<Rightarrow> s
      | (_, _, who) # _ \<Rightarrow>
          (let s1 = s\<lparr> activeChildProcess := None,
                       children := filter (\<lambda>(p, _). p \<noteq> pid) (children s) \<rparr>
           in case who of
                Manual \<Rightarrow> s1
              | Loop intervalMinutes \<Rightarrow> runScheduledLoop_resume intervalMinutes s1))"

text \<open>
  An armed timer fires: it leaves the set of armed timers and its callback calls
  \<^verbatim>\<open>runScheduledLoop\<close> again. \<^verbatim>\<open>scheduleTimeout\<close> keeps referring to it.
\<close>

definition onTimeout :: "nat \<Rightarrow> server \<Rightarrow> server" where
  "onTimeout t s =
     (case filter (\<lambda>(i, _). i = t) (timers s) of
        [] \<Rightarrow> s
      | (_, intervalMinutes) # _ \<Rightarrow> runScheduledLoop intervalMinutes (clearTimeout t s))"

datatype event =
    PostRun string
  | PostSchedule "int option"
  | PostStop
  | Close nat int
  | Timeout nat

fun step :: "event \<Rightarrow> server \<Rightarrow> server" where
  "step (PostRun script) s = postRun script s"
| "step (PostSchedule interval) s = postSchedule interval s"
| "step PostStop s = postStop s"
| "step (Close pid code) s = onClose pid code s"
| "step (Timeout t) s = onTimeout t s"

fun exec :: "event list \<Rightarrow> server \<Rightarrow> server" where
  "exec [] s = s"
| "exec (e # es) s = exec es (step e s)"

text \<open>The children still running, and those among them that a scheduled loop awaits.\<close>

definition running :: "server \<Rightarrow> nat list" where
  "running s = map fst (children s)"

definition loopRuns :: "server \<Rightarrow> nat list" where
  "loopRuns s = map fst (filter (\<lambda>(_, _, who). isLoop who) (children s))"

text \<open>The handle slot is empty or holds a child that is still running.\<close>

definition handle_live :: "server \<Rightarrow> bool" where
  "handle_live s =
     (case activeChildProcess s of None \<Rightarrow> True | Some p \<Rightarrow> p \<in> set (running s))"

text \<open>Every running child is the one in the handle slot.\<close>

definition all_tracked :: "server \<Rightarrow> bool" where
  "all_tracked s = list_all (\<lambda>p. activeChildProcess s = Some p) (running s)"

text \<open>
  Every running child is the one in the handle slot or has been sent the interrupt signal
  by a stop request.
\<close>

definition tracked_or_signalled :: "server \<Rightarrow> bool" where
  "tracked_or_signalled s =
     list_all (\<lambda>p. activeChildProcess s = Some p \<or> p \<in> set (signalled s)) (running s)"

text \<open>Would the event, in this state, launch a child?\<close>

fun dispatches :: "event \<Rightarrow> server \<Rightarrow> bool" where
  "dispatches (PostRun script) s = (script \<in> set allowedScripts)"
| "dispatches (PostSchedule interval) s = (\<not> falsy interval)"
| "dispatches PostStop s = False"
| "dispatches (Close pid code) s = False"
| "dispatches (Timeout t) s = (t \<in> set (map fst (timers s)) \<and> isScheduled s)"

text \<open>The callers serialise: no event launches a child while another child is running.\<close>

fun serialised :: "event list \<Rightarrow> server \<Rightarrow> bool" where
  "serialised [] s = True"
| "serialised (e # es) s =
     ((dispatches e s \<longrightarrow> running s = []) \<and> serialised es (step e s))"

text \<open>The schedule is never started while a run of a scheduled loop is still executing.\<close>

fun no_start_during_run :: "event list \<Rightarrow> server \<Rightarrow> bool" where
  "no_start_during_run [] s = True"
| "no_start_during_run (PostSchedule interval # es) s =
     ((\<not> falsy interval \<longrightarrow> loopRuns s = [])
      \<and> no_start_during_run es (step (PostSchedule interval) s))"
| "no_start_during_run (e # es) s = no_start_during_run es (step e s)"

text \<open>
  At most one timer is armed; it is the one \<^verbatim>\<open>scheduleTimeout\<close> refers to, and it is armed
  only while the schedule is active and no run of a scheduled loop is executing.
\<close>

definition timers_ok :: "server \<Rightarrow> bool" where
  "timers_ok s =
     (length (timers s) \<le> 1
      \<and> list_all (\<lambda>(t, _). scheduleTimeout s = Some t \<and> isScheduled s \<and> loopRuns s = [])
           (timers s))"

text \<open>The invariants that the two restricted kinds of event sequence maintain.\<close>

definition serial_inv :: "server \<Rightarrow> bool" where
  "serial_inv s = (length (running s) \<le> 1 \<and> tracked_or_signalled s)"

definition sched_inv :: "server \<Rightarrow> bool" where
  "sched_inv s = (timers_ok s \<and> length (loopRuns s) \<le> 1)"

section \<open>Strings and numbers of the stage scripts\<close>

text \<open>
  Cell values, dates and times are JavaScript strings; they are modelled as lists of
  characters in the ASCII range, where white space is tab, line feed, vertical tab, form
  feed, carriage return and space, and case conversion touches the 26 letters only.
  A JavaScript number that the scripts compute from such strings is an integer or
  \<^verbatim>\<open>NaN\<close>: \<^typ>\<open>int option\<close>, with \<^term>\<open>None\<close> for \<^verbatim>\<open>NaN\<close> (and for \<^verbatim>\<open>undefined\<close>
  where the script does arithmetic or comparisons on it, which treat it as \<^verbatim>\<open>NaN\<close>).
  Integers stay below \<open>2\<^sup>5\<^sup>3\<close> in absolute value for every date the sheet can hold, so
  the floating-point operations on them are exact.
\<close>

type_synonym number = "int option"

definition isSpace :: "char \<Rightarrow> bool" where
  "isSpace c = ((of_char c :: nat) \<in> {9, 10, 11, 12, 13, 32})"

definition trim :: "string \<Rightarrow> string" where
  "trim s = rev (dropWhile isSpace (rev (dropWhile isSpace s)))"

definition toLowerCase_char :: "char \<Rightarrow> char" where
  "toLowerCase_char c =
     (if 65 \<le> (of_char c :: nat) \<and> (of_char c :: nat) \<le> 90
      then char_of ((of_char c :: nat) + 32) else c)"

definition toUpperCase_char :: "char \<Rightarrow> char" where
  "toUpperCase_char c =
     (if 97 \<le> (of_char c :: nat) \<and> (of_char c :: nat) \<le> 122
      then char_of ((of_char c :: nat) - 32) else c)"

definition toLowerCase :: "string \<Rightarrow> string" where
  "toLowerCase s = map toLowerCase_char s"

definition toUpperCase :: "string \<Rightarrow> string" where
  "toUpperCase s = map toUpperCase_char s"

text \<open>\<^verbatim>\<open>s.split(c)\<close> for a one-character separator: never empty, \<^verbatim>\<open>"".split(c)\<close> is \<^verbatim>\<open>[""]\<close>.\<close>

fun split_on :: "char \<Rightarrow> string \<Rightarrow> string list" where
  "split_on c [] = [[]]"
| "split_on c (x # xs) =
     (if x = c then [] # split_on c xs
      else (case split_on c xs of [] \<Rightarrow> [[x]] | y # ys \<Rightarrow> (x # y) # ys))"

definition endsWith :: "string \<Rightarrow> string \<Rightarrow> bool" where
  "endsWith s suffix = (length suffix \<le> length s \<and> drop (length s - length suffix) s = suffix)"

definition startsWith :: "string \<Rightarrow> string \<Rightarrow> bool" where
  "startsWith s prefix = (take (length prefix) s = prefix)"

text \<open>
  \<^verbatim>\<open>parseInt\<close>: leading white space is skipped, then an optional sign, then the longest run
  of digits of the radix; no digit gives \<^verbatim>\<open>NaN\<close>. Without a radix argument the radix is 10,
  or 16 after a prefix \<^verbatim>\<open>0x\<close> or \<^verbatim>\<open>0X\<close>.
\<close>

definition digitVal :: "char \<Rightarrow> nat option" where
  "digitVal c =
     (let n = (of_char c :: nat)
      in if 48 \<le> n \<and> n \<le> 57 then Some (n - 48)
         else if 97 \<le> n \<and> n \<le> 122 then Some (n - 87)
         else if 65 \<le> n \<and> n \<le> 90 then Some (n - 55)
         else None)"

definition isDigitOf :: "nat \<Rightarrow> char \<Rightarrow> bool" where
  "isDigitOf radix c = (case digitVal c of None \<Rightarrow> False | Some v \<Rightarrow> v < radix)"

definition digitsValue :: "nat \<Rightarrow> string \<Rightarrow> int" where
  "digitsValue radix ds = foldl (\<lambda>a c. a * int radix + int (the (digitVal c))) 0 ds"

definition parseDigits :: "nat \<Rightarrow> string \<Rightarrow> number" where
  "parseDigits radix s =
     (let ds = takeWhile (isDigitOf radix) s
      in if ds = [] then None else Some (digitsValue radix ds))"

definition parseSigned :: "bool \<Rightarrow> nat \<Rightarrow> string \<Rightarrow> number" where
  "parseSigned stripPrefix radix s =
     (let (sign, s1) =
            (case s of
               c # cs \<Rightarrow> if c = CHR ''-'' then (- 1, cs)
                         else if c = CHR ''+'' then (1, cs) else (1 :: int, s)
             | [] \<Rightarrow> (1, s));
          (r, s2) =
            (if stripPrefix \<and> (startsWith s1 ''0x'' \<or> startsWith s1 ''0X'')
             then (16, drop 2 s1) else (radix, s1))
      in map_option (\<lambda>v. sign * v) (parseDigits r s2))"

definition parseInt10 :: "string \<Rightarrow> number" where
  "parseInt10 s = parseSigned False 10 (dropWhile isSpace s)"

definition parseInt :: "string \<Rightarrow> number" where
  "parseInt s = parseSigned True 10 (dropWhile isSpace s)"

text \<open>Reading an array beyond its end gives \<^verbatim>\<open>undefined\<close>.\<close>

definition at :: "'a option list \<Rightarrow> nat \<Rightarrow> 'a option" where
  "at xs i = (if i < length xs then xs ! i else None)"

text \<open>Comparisons with \<^verbatim>\<open>NaN\<close> are false.\<close>

definition num_less :: "number \<Rightarrow> int \<Rightarrow> bool" where
  "num_less a b = (case a of None \<Rightarrow> False | Some x \<Rightarrow> x < b)"

definition num_greater :: "number \<Rightarrow> int \<Rightarrow> bool" where
  "num_greater a b = (case a of None \<Rightarrow> False | Some x \<Rightarrow> x > b)"

section \<open>Date.UTC\<close>

text \<open>
  \<^verbatim>\<open>Date.UTC(year, month, date, hours, minutes, seconds)\<close> as the language standard
  defines it (\<^verbatim>\<open>MakeFullYear\<close>, \<^verbatim>\<open>MakeDay\<close>, \<^verbatim>\<open>MakeTime\<close>, \<^verbatim>\<open>MakeDate\<close>, \<^verbatim>\<open>TimeClip\<close>):
  months count from 0 and fields out of range carry over.
\<close>

definition DayFromYear :: "int \<Rightarrow> int" where
  "DayFromYear y =
     365 * (y - 1970) + (y - 1969) div 4 - (y - 1901) div 100 + (y - 1601) div 400"

definition InLeapYear :: "int \<Rightarrow> bool" where
  "InLeapYear y = (y mod 4 = 0 \<and> (y mod 100 \<noteq> 0 \<or> y mod 400 = 0))"

definition daysBeforeMonth :: "int \<Rightarrow> nat \<Rightarrow> int" where
  "daysBeforeMonth y mn =
     [0, 31, 59, 90, 120, 151, 181, 212, 243, 273, 304, 334] ! mn
     + (if InLeapYear y \<and> 2 \<le> mn then 1 else 0)"

definition MakeFullYear :: "int \<Rightarrow> int" where
  "MakeFullYear y = (if 0 \<le> y \<and> y \<le> 99 then 1900 + y else y)"

definition MakeDay :: "int \<Rightarrow> int \<Rightarrow> int \<Rightarrow> int" where
  "MakeDay year month date =
     (let ym = year + month div 12; mn = nat (month mod 12)
      in DayFromYear ym + daysBeforeMonth ym mn + date - 1)"

definition MakeTime :: "int \<Rightarrow> int \<Rightarrow> int \<Rightarrow> int \<Rightarrow> int" where
  "MakeTime hour minute sec ms = hour * 3600000 + minute * 60000 + sec * 1000 + ms"

definition MakeDate :: "int \<Rightarrow> int \<Rightarrow> int" where
  "MakeDate day time = day * 86400000 + time"

definition TimeClip :: "int \<Rightarrow> number" where
  "TimeClip time = (if \<bar>time\<bar> > 8640000000000000 then None else Some time)"

definition Date_UTC :: "number \<Rightarrow> number \<Rightarrow> number \<Rightarrow> number \<Rightarrow> number \<Rightarrow> number \<Rightarrow> number" where
  "Date_UTC year month date hours minutes seconds =
     (case (year, month, date, hours, minutes, seconds) of
        (Some y, Some m, Some dt, Some h, Some mi, Some s) \<Rightarrow>
          TimeClip (MakeDate (MakeDay (MakeFullYear y) m dt) (MakeTime h mi s 0))
      | _ \<Rightarrow> None)"

section \<open>The posting stage: time parsing and conversion\<close>

datatype error =
    InvalidTimeFormat string
  | InvalidMonth

text \<open>\<^verbatim>\<open>parseFlexibleTime\<close> returns the fields \<^verbatim>\<open>{h, m, s}\<close> or throws.\<close>

definition parseFlexibleTime :: "string \<Rightarrow> error + (number \<times> number \<times> number)" where
  "parseFlexibleTime str =
     (let s = toUpperCase (trim str);
          ampm = (if endsWith s ''AM'' \<or> endsWith s ''PM''
                  then Some (drop (length s - 2) s) else None);
          base = (if ampm \<noteq> None then trim (take (length s - 2) s) else s);
          parts = map (\<lambda>x. parseInt10 (trim x)) (split_on CHR '':'' base)
      in if length parts < 2 then Inl (InvalidTimeFormat str)
         else
           (let h = at parts 0; m = at parts 1;
                sec = (case at parts 2 of None \<Rightarrow> Some 0
                       | Some v \<Rightarrow> if v = 0 then Some 0 else Some v);
                h1 = (if ampm = Some ''PM'' \<and> num_less h 12 then map_option (\<lambda>x. x + 12) h
                      else h);
                h2 = (if ampm = Some ''AM'' \<and> h1 = Some 12 then Some 0 else h1)
            in Inr (h2, m, sec)))"

text \<open>
  \<^verbatim>\<open>convertISTToUTCUnix\<close> returns the Unix time in seconds (possibly \<^verbatim>\<open>NaN\<close>) or throws.
\<close>

definition IST_OFFSET_MIN :: int where
  "IST_OFFSET_MIN = 330"

definition dateFields :: "string \<Rightarrow> number list" where
  "dateFields dateStr = map (\<lambda>x. parseInt10 (trim x)) (split_on CHR ''/'' dateStr)"

definition convertISTToUTCUnix :: "string \<Rightarrow> string \<Rightarrow> error + number" where
  "convertISTToUTCUnix dateStr timeStr =
     (let fs = dateFields dateStr;
          d = at fs 0; m = at fs 1; yRaw = at fs 2;
          y = (if num_less yRaw 100 then map_option (\<lambda>v. 2000 + v) yRaw else yRaw)
      in if num_greater m 12 then Inl InvalidMonth
         else
           (case parseFlexibleTime timeStr of
              Inl e \<Rightarrow> Inl e
            | Inr (h, mm, s) \<Rightarrow>
                (let istUTCms = Date_UTC y (map_option (\<lambda>v. v - 1) m) d h mm s;
                     utcMs = map_option (\<lambda>v. v - IST_OFFSET_MIN * 60 * 1000) istUTCms;
                     unix = map_option (\<lambda>v. v div 1000) utcMs
                 in Inr unix)))"

text \<open>
  The civil calendar, counted directly and not through \<^verbatim>\<open>Date.UTC\<close>: the days from
  1 January 1970 to a date are the lengths of the years in between, the lengths of the
  months of its year before its month, and its day of the month less one. The Unix time
  of a civil date and time read as UTC is 86400 seconds for each of these days plus the
  time of day. Months and days count from 1; years are 1970 or later. These definitions
  are used to state what the conversion computes; they are not part of the program.
\<close>

definition leapYear :: "int \<Rightarrow> bool" where
  "leapYear y = (y mod 4 = 0 \<and> (y mod 100 \<noteq> 0 \<or> y mod 400 = 0))"

definition monthLengths :: "int \<Rightarrow> int list" where
  "monthLengths y =
     [31, if leapYear y then 29 else 28, 31, 30, 31, 30, 31, 31, 30, 31, 30, 31]"

definition daysInMonth :: "nat \<Rightarrow> nat \<Rightarrow> nat" where
  "daysInMonth y m = nat (monthLengths (int y) ! (m - 1))"

fun daysToYear :: "nat \<Rightarrow> int" where
  "daysToYear 0 = 0"
| "daysToYear (Suc n) = daysToYear n + (if leapYear (1970 + int n) then 366 else 365)"

definition civilDays :: "nat \<Rightarrow> nat \<Rightarrow> nat \<Rightarrow> int" where
  "civilDays y m d =
     daysToYear (y - 1970) + sum_list (take (m - 1) (monthLengths (int y))) + int d - 1"

definition unixTime :: "nat \<Rightarrow> nat \<Rightarrow> nat \<Rightarrow> nat \<Rightarrow> nat \<Rightarrow> nat \<Rightarrow> int" where
  "unixTime y m d h mi s = civilDays y m d * 86400 + int h * 3600 + int mi * 60 + int s"

text \<open>
  The hour of the day that a clock reading stands for. With a meridiem the clock is the
  12-hour one (\<^verbatim>\<open>True\<close> is PM): 12 AM is hour 0, 12 PM is hour 12, the other PM hours add
  12. Without one the reading is the hour itself.
\<close>

definition hour24 :: "nat \<Rightarrow> bool option \<Rightarrow> nat" where
  "hour24 h mer =
     (case mer of None \<Rightarrow> h
      | Some pm \<Rightarrow> if pm then (if h = 12 then 12 else h + 12) else (if h = 12 then 0 else h))"

definition secondsOf :: "nat option \<Rightarrow> nat" where
  "secondsOf sec = (case sec of None \<Rightarrow> 0 | Some s \<Rightarrow> s)"

text \<open>
  The inputs in the formats that the sheet's column titles name,
  \<^verbatim>\<open>PostDate(DD/MM/YY)\<close> and \<^verbatim>\<open>PostTime(HH:MM AM/PM)\<close>: a date as DD/MM/YY, a time as
  HH:MM or HH:MM:SS, alone (the 24-hour clock) or followed by a space and AM or PM.
  Numbers are written with two digits. These renderings are the inputs on which the
  conversion is stated; they are not part of the program.
\<close>

definition digit :: "nat \<Rightarrow> char" where
  "digit k = char_of (48 + k)"

definition twoDigits :: "nat \<Rightarrow> string" where
  "twoDigits n = [digit (n div 10), digit (n mod 10)]"

definition dateString :: "nat \<Rightarrow> nat \<Rightarrow> nat \<Rightarrow> string" where
  "dateString d m yy = twoDigits d @ ''/'' @ twoDigits m @ ''/'' @ twoDigits yy"

definition clockString :: "nat \<Rightarrow> nat \<Rightarrow> nat option \<Rightarrow> string" where
  "clockString h mi sec =
     twoDigits h @ '':'' @ twoDigits mi
     @ (case sec of None \<Rightarrow> [] | Some s \<Rightarrow> '':'' @ twoDigits s)"

definition timeString :: "nat \<Rightarrow> nat \<Rightarrow> nat option \<Rightarrow> bool option \<Rightarrow> string" where
  "timeString h mi sec mer =
     clockString h mi sec
     @ (case mer of None \<Rightarrow> [] | Some pm \<Rightarrow> if pm then '' PM'' else '' AM'')"

section \<open>The work-item state machine: what a stage does to the outside world\<close>

text \<open>
  A stage reads the sheet once and then, row by row, calls its external collaborators and
  issues update requests to the sheet. A run of a stage is modelled by the list of these
  effects in the order in which the script performs them. The collaborators are parameters:
  what a download, a post or a generation step answers is given by the \<open>world\<close>. An update
  request is recorded as issued; whether the store then accepts it is outside the model.
\<close>

datatype kind = Photo | Video

datatype effect =
    Update string nat string
  | UpdateRow nat "string list"
  | Download string
  | FbPost kind bool number string
  | Invoke nat "string list"

text \<open>
  \<open>Update col n v\<close> writes \<open>v\<close> to the cell in column \<open>col\<close> (letters) of row \<open>n\<close>;
  \<open>UpdateRow n vs\<close> writes \<open>vs\<close> to row \<open>n\<close> from column A on; \<open>Download link\<close> is a call of
  \<^verbatim>\<open>downloadFileFromDrive\<close>; \<open>FbPost k scheduled time message\<close> a call of
  \<^verbatim>\<open>postPhotoToFacebook\<close> or \<^verbatim>\<open>postVideoToFacebook\<close>; \<open>Invoke n inputs\<close> the generation or
  rendering step of one of the other stages for row \<open>n\<close>.
\<close>

record world =
  fetch :: "string \<Rightarrow> string option"
  fbPost :: "kind \<Rightarrow> bool \<Rightarrow> number \<Rightarrow> string \<Rightarrow> string option"
  clock :: "nat \<Rightarrow> int"
  collaborator :: "nat \<Rightarrow> string list \<Rightarrow> string + string"

text \<open>
  \<open>fetch w link\<close> is the content type of the downloaded file, or \<open>None\<close> when the link is
  malformed or the request fails; \<open>fbPost w\<close> answers \<open>None\<close> on success and the error message
  on failure; \<open>clock w n\<close> is \<^verbatim>\<open>Math.floor(Date.now() / 1000)\<close> when row \<open>n\<close> is handled;
  \<open>collaborator w n inputs\<close> is the link or text produced (\<open>Inr\<close>) or the message of the error
  thrown (\<open>Inl\<close>).
\<close>

fun isUpdate :: "effect \<Rightarrow> bool" where
  "isUpdate (Update _ _ _) = True"
| "isUpdate (UpdateRow _ _) = True"
| "isUpdate _ = False"

text \<open>The text written by an update request.\<close>

fun written :: "effect \<Rightarrow> string list" where
  "written (Update _ _ v) = [v]"
| "written (UpdateRow _ vs) = vs"
| "written _ = []"

text \<open>
  The store: what a row holds after the update requests addressed to it have been carried
  out. A cell beyond the end of a row is empty.
\<close>

definition setCell :: "nat \<Rightarrow> string \<Rightarrow> string list \<Rightarrow> string list" where
  "setCell idx v row = (row @ replicate (Suc idx - length row) [])[idx := v]"

fun applyToRow :: "nat \<Rightarrow> effect \<Rightarrow> string list \<Rightarrow> string list" where
  "applyToRow rowNum (Update col n v) row =
     (if n = rowNum then setCell (colValue col - 1) v row else row)"
| "applyToRow rowNum (UpdateRow n vs) row =
     (if n = rowNum then vs @ drop (length vs) row else row)"
| "applyToRow rowNum (Download _) row = row"
| "applyToRow rowNum (FbPost _ _ _ _) row = row"
| "applyToRow rowNum (Invoke _ _) row = row"

definition commit :: "nat \<Rightarrow> effect list \<Rightarrow> string list \<Rightarrow> string list" where
  "commit rowNum effs row = fold (applyToRow rowNum) effs row"

text \<open>
  The data rows of the sheet after a run. Row 1 of the sheet is the header; the data row at
  position \<open>i\<close> (counted from 0) is the sheet's row \<open>i + 2\<close>, the number under which every
  stage addresses it, and after the run it holds what the run's update requests to that row
  leave in it.
\<close>

definition storeAfter :: "effect list \<Rightarrow> string list list \<Rightarrow> string list list" where
  "storeAfter effs rows = map (\<lambda>(i, row). commit (i + 2) effs row) (enumerate 0 rows)"

section \<open>The posting stage\<close>

record config =
  PAGE_ID :: string
  PAGE_TOKEN :: string
  DRY_RUN :: bool

text \<open>
  An environment variable that is not set is the empty string here: the script only tests
  \<^verbatim>\<open>!PAGE_ID\<close>. \<open>headerIndex\<close> is the object the script fills from the trimmed header row, a
  later column of the same name replacing an earlier one.
\<close>

definition headerIndex :: "string list \<Rightarrow> string \<Rightarrow> nat option" where
  "headerIndex headers = fold (\<lambda>(i, h) m. m(h \<mapsto> i)) (enumerate 0 headers) Map.empty"

definition get :: "(string \<Rightarrow> nat option) \<Rightarrow> string list \<Rightarrow> string \<Rightarrow> string" where
  "get hi row name =
     (case hi name of
        None \<Rightarrow> []
      | Some idx \<Rightarrow> if idx < length row then trim (row ! idx) else [])"

text \<open>\<^verbatim>\<open>updateSheet\<close>: nothing is written when the column is not in the header.\<close>

definition updateSheet :: "(string \<Rightarrow> nat option) \<Rightarrow> nat \<Rightarrow> string \<Rightarrow> string \<Rightarrow> effect list" where
  "updateSheet hi rowNum colName v =
     (case hi colName of None \<Rightarrow> [] | Some idx \<Rightarrow> [Update (toColLetter idx) rowNum v])"

text \<open>
  The pair of calls with which the script closes a row: a status, then the all-complete
  flag.
\<close>

definition closeRow :: "(string \<Rightarrow> nat option) \<Rightarrow> nat \<Rightarrow> string \<Rightarrow> effect list" where
  "closeRow hi rowNum status =
     updateSheet hi rowNum ''PostStatus'' status
     @ updateSheet hi rowNum ''AllProcessComplete'' ''yes''"

text \<open>
  The checks at the head of the loop body, up to the date format: the row is skipped,
  closed with a status, or goes on to media selection.
\<close>

datatype decision = Skip | Closed string | Proceed

definition rowChecks :: "config \<Rightarrow> (string \<Rightarrow> nat option) \<Rightarrow> string list \<Rightarrow> decision" where
  "rowChecks cfg hi row =
     (let postFlag = toLowerCase (get hi row ''Post(yes/no)'');
          postStatus = toLowerCase (get hi row ''PostStatus'');
          allDone = toLowerCase (get hi row ''AllProcessComplete'')
      in if postStatus = ''posted'' \<or> postStatus = ''scheduled'' \<or> allDone = ''yes'' then Skip
         else if postFlag \<noteq> ''yes'' then Closed ''Post turned off''
         else if PAGE_ID cfg = [] \<or> PAGE_TOKEN cfg = [] then Closed ''no env vars set, exiting''
         else
           (let caption = get hi row ''Caption'';
                hashtags = get hi row ''Hashtags'';
                postDate = get hi row ''PostDate(DD/MM/YY)'';
                postTime = get hi row ''PostTime(HH:MM AM/PM)''
            in if caption = [] then Closed ''failed: caption blank''
               else if hashtags = [] then Closed ''failed: hashtags blank''
               else if postDate = [] \<or> postTime = [] then Closed ''failed: missing date/time''
               else
                 (let dateParts = split_on CHR ''/'' postDate
                  in if length dateParts \<noteq> 3 then Closed ''failed: invalid date format''
                     else if num_greater (parseInt (dateParts ! 1)) 12
                     then Closed ''failed: invalid date format''
                     else Proceed)))"

definition mediaLinks :: "(string \<Rightarrow> nat option) \<Rightarrow> string list \<Rightarrow> string list" where
  "mediaLinks hi row =
     [get hi row ''NewImageLink'', get hi row ''ImageWithTextEmbedded'',
      get hi row ''ImageWithLogoEmbedded'', get hi row ''GenImage'']"

text \<open>\<^verbatim>\<open>mediaLinks.find(x => x)\<close>: a string is truthy when it is not empty.\<close>

definition selectMedia :: "string list \<Rightarrow> string option" where
  "selectMedia candidates = find (\<lambda>x. x \<noteq> []) candidates"

definition shouldSchedule :: "number \<Rightarrow> int \<Rightarrow> bool" where
  "shouldSchedule publishUnix nowUnix =
     num_greater (map_option (\<lambda>p. p - nowUnix) publishUnix) 600"

text \<open>
  \<^verbatim>\<open>downloadFileFromDrive\<close> returns the content type (the data plays no part) or throws.
\<close>

definition downloadFileFromDrive :: "world \<Rightarrow> string \<Rightarrow> string option" where
  "downloadFileFromDrive w link =
     (case fetch w link of
        None \<Rightarrow> None
      | Some type \<Rightarrow>
          if \<not> startsWith type ''image/'' \<and> \<not> startsWith type ''video/'' then None
          else Some type)"

definition postRow ::
  "config \<Rightarrow> world \<Rightarrow> (string \<Rightarrow> nat option) \<Rightarrow> nat \<Rightarrow> string list \<Rightarrow> effect list" where
  "postRow cfg w hi rowNum row =
     (case rowChecks cfg hi row of
        Skip \<Rightarrow> []
      | Closed status \<Rightarrow> closeRow hi rowNum status
      | Proceed \<Rightarrow>
          (case selectMedia (mediaLinks hi row) of
             None \<Rightarrow> closeRow hi rowNum ''failed: no media link''
           | Some media \<Rightarrow>
               Download media #
               (case downloadFileFromDrive w media of
                  None \<Rightarrow> closeRow hi rowNum ''failed: download error''
                | Some contentType \<Rightarrow>
                    (case convertISTToUTCUnix (get hi row ''PostDate(DD/MM/YY)'')
                            (get hi row ''PostTime(HH:MM AM/PM)'') of
                       Inl e \<Rightarrow> closeRow hi rowNum ''failed: invalid date/time''
                     | Inr publishUnix \<Rightarrow>
                         (let nowUnix = clock w rowNum;
                              sched = shouldSchedule publishUnix nowUnix;
                              knd = (if startsWith contentType ''image/'' then Photo else Video);
                              message = trim (get hi row ''Caption'' @ '' ''
                                              @ get hi row ''Hashtags'');
                              publishTime = (if sched then publishUnix else None)
                          in if DRY_RUN cfg
                             then updateSheet hi rowNum ''PostStatus''
                                    (''dry-run: '' @ (if sched then ''scheduled'' else ''posted''))
                             else
                               FbPost knd sched publishTime message #
                               (case fbPost w knd sched publishTime message of
                                  None \<Rightarrow>
                                    updateSheet hi rowNum ''PostStatus''
                                      (if sched then ''scheduled'' else ''posted'')
                                    @ updateSheet hi rowNum ''AllProcessComplete'' ''yes''
                                | Some fbMsg \<Rightarrow>
                                    closeRow hi rowNum (''failed: '' @ take 200 fbMsg)))))))"

text \<open>
  \<^verbatim>\<open>main\<close> from the point where the sheet has been read: the first row is the header, data row
  \<open>i\<close> (counted from 1) is sheet row \<open>i + 1\<close>. No column is checked for presence.
\<close>

definition main_post :: "config \<Rightarrow> world \<Rightarrow> string list list \<Rightarrow> effect list" where
  "main_post cfg w rows =
     (case rows of
        [] \<Rightarrow> []
      | header # body \<Rightarrow>
          (let hi = headerIndex (map trim header)
           in concat (map (\<lambda>(i, row). postRow cfg w hi (i + 1) row) (enumerate 1 body))))"

section \<open>The other stages\<close>

text \<open>
  The image, logo and text stages read the header row and the data rows separately and
  address cells by column index. A cell beyond the end of a row is \<^verbatim>\<open>undefined\<close> in the
  scripts; they only test it for truthiness, compare it with a non-empty string or replace
  it by the empty string, so it is the empty string here.
\<close>

definition cell :: "string list \<Rightarrow> nat \<Rightarrow> string" where
  "cell row i = (if i < length row then row ! i else [])"

text \<open>\<^verbatim>\<open>indexOf\<close>: the first position of an element, or nothing (\<^verbatim>\<open>-1\<close>).\<close>

definition indexOf :: "string list \<Rightarrow> string \<Rightarrow> nat option" where
  "indexOf xs x = map_option fst (find (\<lambda>(i, y). y = x) (enumerate 0 xs))"

definition updateCell :: "nat \<Rightarrow> nat \<Rightarrow> string \<Rightarrow> effect" where
  "updateCell colIndex rowIndex v = Update (columnNumberToLetter (colIndex + 1)) rowIndex v"

datatype stage_result = Aborted string | Finished "effect list"

text \<open>
  In these three stages the generation or rendering step of a row and the two updates that
  follow it stand in one \<^verbatim>\<open>try\<close> block; the step is one call of the collaborator, whose
  inputs are the cells the step reads. The store is taken to accept the updates: in these
  stages \<^verbatim>\<open>updateCell\<close> and \<^verbatim>\<open>updateRow\<close> do not catch a rejected update, which is outside what
  is modelled here.
\<close>

subsection \<open>Image generation\<close>

definition genimage_row :: "world \<Rightarrow> nat \<Rightarrow> nat \<Rightarrow> nat \<Rightarrow> nat \<Rightarrow> string list \<Rightarrow> effect list" where
  "genimage_row w imagePromptCol genImageCol genCompleteCol rowIndex row =
     (let imagePrompt = cell row imagePromptCol;
          genComplete = cell row genCompleteCol
      in if imagePrompt = [] then []
         else if genComplete = ''Complete'' then []
         else
           Invoke rowIndex [imagePrompt] #
           (case collaborator w rowIndex [imagePrompt] of
              Inr driveLink \<Rightarrow>
                [updateCell genImageCol rowIndex driveLink,
                 updateCell genCompleteCol rowIndex ''Complete'']
            | Inl message \<Rightarrow>
                [updateCell genCompleteCol rowIndex (''Error: '' @ message)]))"

definition genimage_run :: "world \<Rightarrow> string list \<Rightarrow> string list list \<Rightarrow> stage_result" where
  "genimage_run w headers rows =
     (case (indexOf headers ''ImagePrompt'', indexOf headers ''GenImage'',
            indexOf headers ''GenComplete'') of
        (Some imagePromptCol, Some genImageCol, Some genCompleteCol) \<Rightarrow>
          Finished (concat (map (\<lambda>(i, row).
                      genimage_row w imagePromptCol genImageCol genCompleteCol (i + 2) row)
                    (enumerate 0 rows)))
      | _ \<Rightarrow> Aborted ''Required columns not found in headers.'')"

subsection \<open>Logo embedding\<close>

text \<open>
  \<^verbatim>\<open>normalizeHeader\<close>: lower case, all white space removed, then every stretch from an opening
  parenthesis to the nearest closing one removed.
\<close>

function stripParens :: "string \<Rightarrow> string" where
  "stripParens [] = []"
| "stripParens (c # cs) =
     (if c = CHR ''(''
      then (case dropWhile (\<lambda>x. x \<noteq> CHR '')'') cs of
              [] \<Rightarrow> c # stripParens cs
            | _ # rest \<Rightarrow> stripParens rest)
      else c # stripParens cs)"
  by pat_completeness auto
termination
proof (relation "measure length")
  show "wf (measure length)" by simp
next
  fix c :: char and cs :: string
  show "(cs, c # cs) \<in> measure length" by simp
next
  fix c :: char and cs :: string and x :: char and rest :: string
  assume "dropWhile (\<lambda>x. x \<noteq> CHR '')'') cs = x # rest"
  then have "Suc (length rest) = length (dropWhile (\<lambda>x. x \<noteq> CHR '')'') cs)" by simp
  also have "\<dots> \<le> length cs" by (rule length_dropWhile_le)
  finally show "(rest, c # cs) \<in> measure length" by simp
next
  fix c :: char and cs :: string
  show "(cs, c # cs) \<in> measure length" by simp
qed

definition normalizeHeader :: "string \<Rightarrow> string" where
  "normalizeHeader str = stripParens (filter (\<lambda>c. \<not> isSpace c) (toLowerCase str))"

definition embedlogo_row ::
  "world \<Rightarrow> nat \<Rightarrow> nat \<Rightarrow> nat \<Rightarrow> nat \<Rightarrow> nat \<Rightarrow> nat \<Rightarrow> nat \<Rightarrow> string list \<Rightarrow> effect list" where
  "embedlogo_row w embedCol logoUrlCol logoPosCol completeCol outputCol genImageCol rowIndex row =
     (let embed = toLowerCase (cell row embedCol);
          logoUrl = cell row logoUrlCol;
          logoPosRaw = cell row logoPosCol;
          status = toLowerCase (cell row completeCol);
          baseImageUrl = cell row genImageCol
      in if status = ''complete'' then []
         else if embed \<noteq> ''yes'' then [updateCell completeCol rowIndex ''Complete'']
         else if baseImageUrl = []
         then [updateCell completeCol rowIndex ''Error: Base image (GenImage) missing'']
         else if logoUrl = [] then [updateCell completeCol rowIndex ''Error: LogoUrl missing'']
         else
           Invoke rowIndex [baseImageUrl, logoUrl, logoPosRaw] #
           (case collaborator w rowIndex [baseImageUrl, logoUrl, logoPosRaw] of
              Inr driveLink \<Rightarrow>
                [updateCell outputCol rowIndex driveLink,
                 updateCell completeCol rowIndex ''Complete'']
            | Inl message \<Rightarrow>
                [updateCell completeCol rowIndex (''Error: '' @ message)]))"

definition col :: "string list \<Rightarrow> string \<Rightarrow> nat option" where
  "col normalized name = indexOf normalized (normalizeHeader name)"

definition embedlogo_run :: "world \<Rightarrow> string list \<Rightarrow> string list list \<Rightarrow> stage_result" where
  "embedlogo_run w headers rows =
     (let normalized = map normalizeHeader headers
      in case (col normalized ''EmbedLogo'', col normalized ''LogoUrl'',
               col normalized ''LogoPosition'', col normalized ''LogoEmbedComplete'',
               col normalized ''ImageWithLogoEmbedded'', col normalized ''GenImage'') of
           (Some embedCol, Some logoUrlCol, Some logoPosCol, Some completeCol, Some outputCol,
            Some genImageCol) \<Rightarrow>
             Finished (concat (map (\<lambda>(i, row).
                         embedlogo_row w embedCol logoUrlCol logoPosCol completeCol outputCol
                           genImageCol (i + 2) row)
                       (enumerate 0 rows)))
         | _ \<Rightarrow> Aborted ''Required headers missing. Aborting.'')"

subsection \<open>Text embedding\<close>

text \<open>
  This stage reads header and data in one range, builds \<^verbatim>\<open>colMap\<close> the way the posting stage
  builds its index, pads a short row to the width of the header and writes a row back as a
  whole. The columns are looked up in \<^verbatim>\<open>colMap\<close> after the check that all of them are there.
\<close>

definition requiredCols :: "string list" where
  "requiredCols =
     [''EmbedText(yes/no)'', ''TextContent'', ''TextFont'', ''TextPosition'', ''TextColor'',
      ''TextBackground'', ''TextEmbedComplete'', ''ImageWithTextEmbedded'',
      ''GenImage'', ''ImageWithLogoEmbedded'', ''Company'']"

definition padRow :: "nat \<Rightarrow> string list \<Rightarrow> string list" where
  "padRow numCols row =
     (if length row < numCols then row @ replicate (numCols - length row) [] else row)"

definition embedtxt_row ::
  "world \<Rightarrow> (string \<Rightarrow> nat option) \<Rightarrow> nat \<Rightarrow> nat \<Rightarrow> string list \<Rightarrow> effect list" where
  "embedtxt_row w colMap numCols rowIndex row0 =
     (let row = padRow numCols row0;
          textCompleteCol = the (colMap ''TextEmbedComplete'')
      in if row ! textCompleteCol = ''Complete'' then []
         else
           (let embedTextFlag = toLowerCase (trim (row ! the (colMap ''EmbedText(yes/no)'')))
            in if embedTextFlag \<noteq> ''yes''
               then [UpdateRow (rowIndex + 1) (row[textCompleteCol := ''Complete''])]
               else
                 (let textContent = trim (row ! the (colMap ''TextContent''))
                  in if textContent = []
                     then [UpdateRow (rowIndex + 1)
                             (row[textCompleteCol := ''Error: TextContent is blank''])]
                     else
                       (let withLogo = trim (row ! the (colMap ''ImageWithLogoEmbedded''));
                            imageUrl = (if withLogo = []
                                        then trim (row ! the (colMap ''GenImage''))
                                        else withLogo)
                        in if imageUrl = []
                           then [UpdateRow (rowIndex + 1)
                                   (row[textCompleteCol := ''Error: No image URL''])]
                           else
                             Invoke (rowIndex + 1) (imageUrl # row) #
                             (case collaborator w (rowIndex + 1) (imageUrl # row) of
                                Inr shareLink \<Rightarrow>
                                  [UpdateRow (rowIndex + 1)
                                     (row[the (colMap ''ImageWithTextEmbedded'') := shareLink,
                                          textCompleteCol := ''Complete''])]
                              | Inl message \<Rightarrow>
                                  [UpdateRow (rowIndex + 1)
                                     (row[textCompleteCol := ''Error: '' @ message])])))))"

definition embedtxt_run :: "world \<Rightarrow> string list list \<Rightarrow> stage_result" where
  "embedtxt_run w rows =
     (case rows of
        [] \<Rightarrow> Finished []
      | headers # body \<Rightarrow>
          (let colMap = headerIndex (map trim headers)
           in case find (\<lambda>c. colMap c = None) requiredCols of
                Some c \<Rightarrow> Aborted (''Missing column: '' @ c)
              | None \<Rightarrow>
                  Finished (concat (map (\<lambda>(rowIndex, row).
                              embedtxt_row w colMap (length headers) rowIndex row)
                            (enumerate 1 body)))))"

subsection \<open>Content generation\<close>

text \<open>
  The first stage reads columns A to F by position, has no completion flag, and stops at the
  first row whose company, website and topic are all empty. A generation that fails is
  logged and writes nothing.
\<close>

definition genField :: "world \<Rightarrow> nat \<Rightarrow> string \<Rightarrow> string \<Rightarrow> string list \<Rightarrow> effect list" where
  "genField w rowIndex column current inputs =
     (if current \<noteq> [] then []
      else Invoke rowIndex inputs #
           (case collaborator w rowIndex inputs of
              Inr text \<Rightarrow> [Update column rowIndex text]
            | Inl message \<Rightarrow> []))"

fun gencontent_loop :: "world \<Rightarrow> nat \<Rightarrow> string list list \<Rightarrow> effect list" where
  "gencontent_loop w rowIndex [] = []"
| "gencontent_loop w rowIndex (row # rest) =
     (let company = cell row 0; website = cell row 1; topic = cell row 2;
          caption = cell row 3; hashtags = cell row 4; imagePrompt = cell row 5
      in if company = [] \<and> website = [] \<and> topic = [] then []
         else if company = [] then gencontent_loop w (rowIndex + 1) rest
         else if topic = [] then gencontent_loop w (rowIndex + 1) rest
         else genField w rowIndex ''D'' caption [''caption'', company, topic]
              @ genField w rowIndex ''E'' hashtags [''hashtags'', topic]
              @ genField w rowIndex ''F'' imagePrompt [''imagePrompt'', company, topic]
              @ gencontent_loop w (rowIndex + 1) rest)"

definition gencontent_run :: "world \<Rightarrow> string list list \<Rightarrow> effect list" where
  "gencontent_run w rows = gencontent_loop w 2 rows"

section \<open>Example sheets\<close>

text \<open>Concrete configurations, worlds and sheets on which the properties below are run.\<close>

definition example_config :: config where
  "example_config = \<lparr> PAGE_ID = ''1234'', PAGE_TOKEN = ''token'', DRY_RUN = False \<rparr>"

text \<open>
  A world where everything succeeds, at a quarter of an hour before 2025-06-05T03:30:00Z; the
  same world five minutes before that instant; and a world where posting and generation
  fail, the latter with a message of 300 characters.
\<close>

definition example_world :: world where
  "example_world =
     \<lparr> fetch = (\<lambda>link. Some ''image/png''),
       fbPost = (\<lambda>k scheduled time message. None),
       clock = (\<lambda>n. 1749094200 - 15 * 60),
       collaborator = (\<lambda>n inputs. Inr ''https://drive.example/file/d/new'') \<rparr>"

definition late_world :: world where
  "late_world = example_world \<lparr> clock := (\<lambda>n. 1749094200 - 5 * 60) \<rparr>"

definition failing_world :: world where
  "failing_world =
     example_world
       \<lparr> fbPost := (\<lambda>k scheduled time message. Some ''(#200) Permissions error''),
         collaborator := (\<lambda>n inputs. Inl (replicate 300 CHR ''x'')) \<rparr>"

definition post_header :: "string list" where
  "post_header =
     [''Caption'', ''Hashtags'', ''GenImage'', ''NewImageLink'', ''Post(yes/no)'',
      ''PostDate(DD/MM/YY)'', ''PostTime(HH:MM AM/PM)'', ''PostStatus'',
      ''AllProcessComplete'']"

definition post_row :: "string list" where
  "post_row =
     [''Launch day'', ''#launch'', ''https://drive.example/file/d/abc'', '''', ''yes'',
      ''05/06/25'', ''09:00 AM'']"

definition post_row_no_media :: "string list" where
  "post_row_no_media = [''Launch day'', ''#launch'', '''', '' '', ''yes'', ''05/06/25'', ''09:00 AM'']"

definition post_header_no_status :: "string list" where
  "post_header_no_status =
     [''Caption'', ''Hashtags'', ''GenImage'', ''NewImageLink'', ''Post(yes/no)'',
      ''PostDate(DD/MM/YY)'', ''PostTime(HH:MM AM/PM)'', ''AllProcessComplete'']"

definition image_header :: "string list" where
  "image_header = [''ImagePrompt'', ''GenImage'', ''GenComplete'']"

definition logo_header :: "string list" where
  "logo_header =
     [''EmbedLogo(yes/no)'', ''LogoUrl'', ''LogoPosition'', ''LogoEmbedComplete'',
      ''ImageWithLogoEmbedded'', ''GenImage'', ''AllProcessComplete'']"

text \<open>
  A row that has been posted (all-complete flag set) after its logo step had failed for want
  of a logo link.
\<close>

definition logo_row_posted :: "string list" where
  "logo_row_posted =
     [''yes'', '''', '''', ''Error: LogoUrl missing'', '''',
      ''https://drive.example/file/d/abc'', ''yes'']"

definition offline_world :: world where
  "offline_world = example_world \<lparr> fetch := (\<lambda>link. None) \<rparr>"

definition text_row :: "string list" where
  "text_row = [''yes'', ''Hello'', '''', '''', '''', '''', '''', '''', ''https://drive.example/file/d/abc'']"

chapter \<open>Properties\<close>

section \<open>Column letters\<close>

lemma next_num_eq:
  "0 < n \<Longrightarrow> (n - (n - Suc 0) mod 26) div 26 = (n - Suc 0) div (26::nat)"
proof -
  assume "0 < n"
  then obtain k where k: "n = Suc k" by (cases n) auto
  have "k - k mod 26 = 26 * (k div 26)" by (simp add: minus_mod_eq_mult_div)
  then have "Suc k - k mod 26 = 26 * (k div 26) + 1"
    by (metis Suc_diff_le Suc_eq_plus1 mod_less_eq_dividend)
  then show ?thesis using k by simp
qed

lemma loops_agree: "columnNumberToLetter_loop n s = toColLetter_loop n s"
proof (induction n s rule: toColLetter_loop.induct)
  case (1 n s)
  show ?case
  proof (cases "0 < n")
    case True
    then show ?thesis
      using 1 [OF True refl]
      by (subst columnNumberToLetter_loop.simps, subst toColLetter_loop.simps)
         (simp add: next_num_eq Let_def)
  next
    case False
    then show ?thesis
      by (simp add: columnNumberToLetter_loop.simps toColLetter_loop.simps)
  qed
qed

lemma loop_append: "toColLetter_loop n (s @ t) = toColLetter_loop n s @ t"
proof (induction n s rule: toColLetter_loop.induct)
  case (1 n s)
  show ?case
  proof (cases "0 < n")
    case True
    show ?thesis
      using 1 [OF True refl] True
      by (subst toColLetter_loop.simps, subst (2) toColLetter_loop.simps) (simp add: Let_def)
  next
    case False
    then show ?thesis by (simp add: toColLetter_loop.simps)
  qed
qed

lemma loop_unfold:
  assumes "0 < n"
  shows "toColLetter_loop n [] =
         toColLetter_loop ((n - 1) div 26) [] @ [char_of (65 + (n - 1) mod 26)]"
proof -
  have "toColLetter_loop n [] =
        toColLetter_loop ((n - 1) div 26) ([] @ [char_of (65 + (n - 1) mod 26)])"
    using assms by (subst toColLetter_loop.simps) (simp add: Let_def)
  then show ?thesis by (simp only: loop_append)
qed

lemma colValue_snoc: "colValue (s @ [c]) = colValue s * 26 + (of_char c - 64)"
  by (simp add: colValue_def)

lemma colValue_loop: "colValue (toColLetter_loop n []) = n"
proof (induction n rule: less_induct)
  case (less n)
  show ?case
  proof (cases "0 < n")
    case True
    let ?r = "(n - 1) mod 26" and ?q = "(n - 1) div 26"
    have "?q < n" using True by (simp add: div_less_iff_less_mult)
    then have "colValue (toColLetter_loop ?q []) = ?q" by (rule less)
    then have "colValue (toColLetter_loop n []) = ?q * 26 + (?r + 1)"
      by (simp add: loop_unfold [OF True] colValue_snoc)
    also have "\<dots> = n" using True by simp
    finally show ?thesis .
  next
    case False
    then show ?thesis by (simp add: toColLetter_loop.simps colValue_def)
  qed
qed

lemma letters_loop: "list_all isUpperLetter (toColLetter_loop n [])"
proof (induction n rule: less_induct)
  case (less n)
  show ?case
  proof (cases "0 < n")
    case True
    let ?r = "(n - 1) mod 26" and ?q = "(n - 1) div 26"
    have "?q < n" using True by (simp add: div_less_iff_less_mult)
    then have "list_all isUpperLetter (toColLetter_loop ?q [])" by (rule less)
    moreover have "isUpperLetter (char_of (65 + ?r))"
      by (simp add: isUpperLetter_def)
    ultimately show ?thesis
      by (simp add: loop_unfold [OF True])
  next
    case False
    then show ?thesis by (simp add: toColLetter_loop.simps)
  qed
qed

text \<open>
  Claim C10. For every 0-based index \<open>i\<close>, the posting stage's \<open>toColLetter i\<close> is the
  other stages' \<open>columnNumberToLetter (i + 1)\<close>; the result consists of the letters A to Z
  and reads, as a spreadsheet column name, as column number \<open>i + 1\<close>; index 0 gives A,
  25 gives Z and 26 gives AA.
\<close>

theorem column_letter_helpers_agree:
  "toColLetter i = columnNumberToLetter (i + 1)
   \<and> list_all isUpperLetter (toColLetter i)
   \<and> colValue (toColLetter i) = i + 1
   \<and> toColLetter 0 = ''A'' \<and> toColLetter 25 = ''Z'' \<and> toColLetter 26 = ''AA''"
proof -
  have "toColLetter i = columnNumberToLetter (i + 1)"
    by (simp add: toColLetter_def columnNumberToLetter_def loops_agree)
  moreover have "list_all isUpperLetter (toColLetter i)"
    by (simp add: toColLetter_def letters_loop)
  moreover have "colValue (toColLetter i) = i + 1"
    by (simp add: toColLetter_def colValue_loop)
  moreover have "toColLetter 0 = ''A''" by code_simp
  moreover have "toColLetter 25 = ''Z''" by code_simp
  moreover have "toColLetter 26 = ''AA''" by code_simp
  ultimately show ?thesis by simp
qed

theorem column_letter_helpers_agree_witness:
  "toColLetter 701 = ''ZZ'' \<and> columnNumberToLetter 702 = ''ZZ'' \<and> colValue ''ZZ'' = 702"
proof -
  note t = column_letter_helpers_agree [of 701]
  have a: "toColLetter 701 = ''ZZ''" by code_simp
  from t have "toColLetter 701 = columnNumberToLetter (701 + 1)" by (rule conjunct1)
  with a have b: "columnNumberToLetter 702 = ''ZZ''" by simp
  from t have "colValue (toColLetter 701) = 701 + 1" by blast
  with a have c: "colValue ''ZZ'' = 702" by simp
  from a b c show ?thesis by blast
qed

section \<open>The control server\<close>


lemmas handler_defs = postRun_def runScript_def postSchedule_def postStop_def onClose_def
  onTimeout_def runScheduledLoop_def runScheduledLoop_resume_def clearScheduleTimeout_def
  clearTimeout_def

lemma filter_fst_ConsD:
  "filter (\<lambda>(i, _). i = t) xs = x # ys \<Longrightarrow> x \<in> set xs \<and> fst x = t"
proof -
  assume "filter (\<lambda>(i, _). i = t) xs = x # ys"
  then have "x \<in> set (filter (\<lambda>(i, _). i = t) xs)" by simp
  then show ?thesis by (auto simp: case_prod_unfold)
qed

lemma handle_live_step: "handle_live s \<Longrightarrow> handle_live (step e s)"
  by (cases e)
     (auto simp: handle_live_def running_def handler_defs Let_def
           split: option.splits list.splits origin.splits if_splits)

lemma handle_live_exec: "handle_live s \<Longrightarrow> handle_live (exec evs s)"
  by (induction evs arbitrary: s) (simp_all add: handle_live_step)

lemma serial_inv_step:
  assumes "serial_inv s" and "dispatches e s \<longrightarrow> running s = []"
  shows "serial_inv (step e s)"
proof (cases e)
  case (PostRun script)
  with assms show ?thesis
    by (auto simp: serial_inv_def tracked_or_signalled_def running_def postRun_def runScript_def)
next
  case (PostSchedule interval)
  with assms show ?thesis
    by (auto simp: serial_inv_def tracked_or_signalled_def running_def handler_defs Let_def list_all_iff
             split: option.splits)
next
  case PostStop
  with assms show ?thesis
    by (auto simp: serial_inv_def tracked_or_signalled_def running_def handler_defs Let_def list_all_iff
             split: option.splits)
next
  case (Close pid code)
  have len: "length (filter (\<lambda>(p, _). p \<noteq> pid) (children s)) \<le> length (children s)"
    by simp
  show ?thesis
  proof (cases "filter (\<lambda>(p, _). p = pid) (children s)")
    case Nil
    with assms Close show ?thesis by (simp add: onClose_def)
  next
    case (Cons c cs)
    then have "c \<in> set (children s)" "fst c = pid"
      by (auto dest: filter_fst_ConsD)
    with assms(1) have "children s = [c]"
      by (cases "children s") (auto simp: serial_inv_def running_def)
    with \<open>fst c = pid\<close> have "filter (\<lambda>(p, _). p \<noteq> pid) (children s) = []"
      by (auto simp: case_prod_unfold)
    with Close Cons show ?thesis
      by (auto simp: serial_inv_def tracked_or_signalled_def running_def onClose_def
            runScheduledLoop_resume_def Let_def split: origin.splits prod.splits)
  qed
next
  case (Timeout t)
  with assms show ?thesis
    by (force simp: serial_inv_def tracked_or_signalled_def running_def handler_defs Let_def list_all_iff
             split: option.splits list.splits dest: filter_fst_ConsD)
qed

lemma serial_inv_exec:
  "serial_inv s \<Longrightarrow> serialised evs s \<Longrightarrow> serial_inv (exec evs s)"
  by (induction evs arbitrary: s) (simp_all add: serial_inv_step)

lemma timers_single:
  assumes "timers_ok s" and "(t, iv) \<in> set (timers s)"
  shows "timers s = [(t, iv)]" and "scheduleTimeout s = Some t" and "isScheduled s"
    and "loopRuns s = []"
proof -
  from assms show "timers s = [(t, iv)]"
    by (cases "timers s") (auto simp: timers_ok_def)
  from assms show "scheduleTimeout s = Some t" "isScheduled s" "loopRuns s = []"
    by (auto simp: timers_ok_def list_all_iff)
qed

lemma cleared_timers:
  assumes "timers_ok s"
  shows "timers (clearScheduleTimeout (s\<lparr>isScheduled := False\<rparr>)) = []"
proof (cases "timers s")
  case Nil
  then show ?thesis
    by (simp add: clearScheduleTimeout_def clearTimeout_def split: option.splits)
next
  case (Cons x xs)
  obtain t iv where x: "x = (t, iv)" by (cases x)
  with Cons have "(t, iv) \<in> set (timers s)" by simp
  from timers_single(1,2) [OF assms this] show ?thesis
    by (simp add: clearScheduleTimeout_def clearTimeout_def)
qed

lemma cleared_fields:
  "children (clearScheduleTimeout s) = children s"
  "isScheduled (clearScheduleTimeout s) = isScheduled s"
  "scheduleTimeout (clearScheduleTimeout s) = scheduleTimeout s"
  "activeChildProcess (clearScheduleTimeout s) = activeChildProcess s"
  by (simp_all add: clearScheduleTimeout_def clearTimeout_def split: option.splits)

lemma sched_inv_cong:
  assumes "timers s' = timers s" "children s' = children s"
    "scheduleTimeout s' = scheduleTimeout s" "isScheduled s' = isScheduled s"
  shows "sched_inv s' = sched_inv s"
  using assms by (simp add: sched_inv_def timers_ok_def loopRuns_def)

lemma sched_inv_no_timers:
  "timers s = [] \<Longrightarrow> length (loopRuns s) \<le> 1 \<Longrightarrow> sched_inv s"
  by (simp add: sched_inv_def timers_ok_def)

lemma loop_pids_filter:
  "map fst (filter (\<lambda>(_, _, who). isLoop who) (filter (\<lambda>(p, _). p \<noteq> pid) xs)) =
   filter (\<lambda>p. p \<noteq> pid) (map fst (filter (\<lambda>(_, _, who). isLoop who) xs))"
  by (induction xs) auto

lemma sched_inv_postSchedule:
  assumes "sched_inv s" and "\<not> falsy interval \<longrightarrow> loopRuns s = []"
  shows "sched_inv (postSchedule interval s)"
proof -
  let ?s1 = "clearScheduleTimeout (s\<lparr>isScheduled := False\<rparr>)"
  have t: "timers ?s1 = []" using assms(1) by (simp add: sched_inv_def cleared_timers)
  have l: "loopRuns ?s1 = loopRuns s" by (simp add: loopRuns_def cleared_fields)
  show ?thesis
  proof (cases "falsy interval")
    case True
    with t l assms(1) show ?thesis
      by (simp add: postSchedule_def sched_inv_def timers_ok_def Let_def)
  next
    case False
    with assms(2) have "loopRuns s = []" by simp
    with False t l show ?thesis
      by (simp add: postSchedule_def sched_inv_def timers_ok_def Let_def runScheduledLoop_def
            runScript_def loopRuns_def)
  qed
qed

lemma sched_inv_postStop:
  assumes "sched_inv s"
  shows "sched_inv (postStop s)"
proof -
  define s1 where "s1 = (if isScheduled s \<or> scheduleTimeout s \<noteq> None
             then clearScheduleTimeout (s\<lparr>isScheduled := False\<rparr>) else s)"
  have t: "timers s1 = []"
  proof (cases "isScheduled s \<or> scheduleTimeout s \<noteq> None")
    case True
    with assms show ?thesis by (simp add: s1_def sched_inv_def cleared_timers)
  next
    case False
    have "timers s = []"
    proof (cases "timers s")
      case (Cons x xs)
      obtain t iv where "x = (t, iv)" by (cases x)
      with Cons have "(t, iv) \<in> set (timers s)" by simp
      with assms False show ?thesis by (auto simp: sched_inv_def dest: timers_single(3))
    qed simp
    with False show ?thesis by (simp add: s1_def)
  qed
  have l: "loopRuns s1 = loopRuns s" by (simp add: s1_def loopRuns_def cleared_fields)
  from t l assms have inv1: "sched_inv s1"
    by (intro sched_inv_no_timers) (simp_all add: sched_inv_def)
  have stop: "postStop s = (case activeChildProcess s1 of
           Some p \<Rightarrow> s1\<lparr> signalled := signalled s1 @ [p], activeChildProcess := None \<rparr>
         | None \<Rightarrow> s1)"
    unfolding postStop_def Let_def s1_def ..
  have "sched_inv (s1\<lparr> signalled := sg, activeChildProcess := None \<rparr>)" for sg
    using inv1 by (subst sched_inv_cong [where s = s1]) simp_all
  with inv1 show ?thesis
    unfolding stop by (simp split: option.splits)
qed

lemma sched_inv_postRun:
  assumes "sched_inv s"
  shows "sched_inv (postRun script s)"
  using assms
  by (auto simp: sched_inv_def timers_ok_def loopRuns_def postRun_def runScript_def)

lemma sched_inv_onTimeout:
  assumes "sched_inv s"
  shows "sched_inv (onTimeout t s)"
proof (cases "filter (\<lambda>(i, _). i = t) (timers s)")
  case Nil
  then show ?thesis using assms by (simp add: onTimeout_def)
next
  case (Cons x xs)
  obtain t' iv where x: "x = (t', iv)" by (cases x)
  from Cons x have in_t: "(t, iv) \<in> set (timers s)" by (auto dest: filter_fst_ConsD)
  from assms have ok: "timers_ok s" by (simp add: sched_inv_def)
  note single = timers_single [OF ok in_t]
  from Cons x single show ?thesis
    by (simp add: onTimeout_def runScheduledLoop_def clearTimeout_def runScript_def
          sched_inv_def timers_ok_def loopRuns_def)
qed

lemma sched_inv_onClose:
  assumes "sched_inv s"
  shows "sched_inv (onClose pid code s)"
proof (cases "filter (\<lambda>(p, _). p = pid) (children s)")
  case Nil
  then show ?thesis using assms by (simp add: onClose_def)
next
  case (Cons c cs)
  obtain p scr who where c: "c = (p, scr, who)" by (cases c)
  from Cons c have in_c: "(pid, scr, who) \<in> set (children s)" by (auto dest: filter_fst_ConsD)
  let ?rest = "filter (\<lambda>(p, _). p \<noteq> pid) (children s)"
  let ?s1 = "s\<lparr>activeChildProcess := None, children := ?rest\<rparr>"
  have ch: "children ?s1 = ?rest" by simp
  have sub: "loopRuns ?s1 = filter (\<lambda>p. p \<noteq> pid) (loopRuns s)"
    by (simp only: loopRuns_def ch loop_pids_filter)
  show ?thesis
  proof (cases who)
    case Manual
    have "length (loopRuns ?s1) \<le> length (loopRuns s)" by (simp add: sub)
    moreover have "loopRuns s = [] \<Longrightarrow> loopRuns ?s1 = []" by (simp add: sub)
    ultimately show ?thesis using assms Cons c Manual
      by (auto simp: onClose_def sched_inv_def timers_ok_def Let_def list_all_iff)
  next
    case (Loop iv)
    with in_c have "pid \<in> set (loopRuns s)" by (force simp: loopRuns_def)
    with assms have lr: "loopRuns s = [pid]"
      by (cases "loopRuns s") (auto simp: sched_inv_def)
    then have lr1: "loopRuns ?s1 = []" by (simp add: sub)
    have "timers s = []"
    proof (cases "timers s")
      case (Cons x xs)
      obtain t iv where "x = (t, iv)" by (cases x)
      with Cons have "(t, iv) \<in> set (timers s)" by simp
      with assms lr show ?thesis by (auto simp: sched_inv_def dest: timers_single(4))
    qed simp
    with lr1 Cons c Loop show ?thesis
      by (simp add: onClose_def Let_def runScheduledLoop_resume_def sched_inv_def timers_ok_def
            loopRuns_def)
  qed
qed

lemma sched_inv_exec:
  "sched_inv s \<Longrightarrow> no_start_during_run evs s \<Longrightarrow> sched_inv (exec evs s)"
proof (induction evs s rule: no_start_during_run.induct)
  case (1 s)
  then show ?case by simp
next
  case (2 interval es s)
  then show ?case by (simp add: sched_inv_postSchedule)
qed (simp_all add: sched_inv_postStop sched_inv_postRun sched_inv_onTimeout sched_inv_onClose)

text \<open>
  Claim C1, as stated, fails: \<^verbatim>\<open>runScript\<close> stores every new child in the handle slot without
  looking at it, and every \<^verbatim>\<open>close\<close> callback clears the slot. After two run requests in a
  row both children run and the slot holds only the second; when the first exits the slot
  is cleared although the second still runs.
\<close>

theorem second_run_request_loses_first_child:
  "running (exec [PostRun ''1.gencontent.js'', PostRun ''2.genimage.js''] init) = [0, 1]
   \<and> activeChildProcess (exec [PostRun ''1.gencontent.js'', PostRun ''2.genimage.js''] init)
       = Some 1
   \<and> \<not> all_tracked (exec [PostRun ''1.gencontent.js'', PostRun ''2.genimage.js''] init)
   \<and> running (exec [PostRun ''1.gencontent.js'', PostRun ''2.genimage.js'', Close 0 0] init)
       = [1]
   \<and> activeChildProcess
         (exec [PostRun ''1.gencontent.js'', PostRun ''2.genimage.js'', Close 0 0] init)
       = None"
  by code_simp

text \<open>
  Claim C1, amended. After every sequence of requests, exits and timer firings the single
  handle slot is empty or holds a child that is still running. When the callers serialise
  (no event launches a child while another is running), at most one child runs and every
  running child is the one in the slot or has been sent the interrupt signal by a stop
  request.
\<close>

theorem handle_slot_invariant:
  "handle_live (exec evs init)
   \<and> (serialised evs init \<longrightarrow>
        length (running (exec evs init)) \<le> 1 \<and> tracked_or_signalled (exec evs init))"
proof -
  have "handle_live init" by (simp add: handle_live_def init_def)
  then have a: "handle_live (exec evs init)" by (rule handle_live_exec)
  have "serial_inv init"
    by (simp add: serial_inv_def tracked_or_signalled_def running_def init_def)
  then have "serialised evs init \<Longrightarrow> serial_inv (exec evs init)"
    by (rule serial_inv_exec)
  with a show ?thesis by (auto simp: serial_inv_def)
qed

theorem handle_slot_invariant_witness:
  "serialised [PostRun ''mainrunner.js'', Close 0 0, PostSchedule (Some 5), PostStop] init
   \<and> running (exec [PostRun ''mainrunner.js'', Close 0 0, PostSchedule (Some 5), PostStop] init)
       = [1]
   \<and> signalled (exec [PostRun ''mainrunner.js'', Close 0 0, PostSchedule (Some 5), PostStop] init)
       = [1]
   \<and> handle_live (exec [PostRun ''mainrunner.js'', Close 0 0, PostSchedule (Some 5), PostStop] init)
   \<and> tracked_or_signalled
         (exec [PostRun ''mainrunner.js'', Close 0 0, PostSchedule (Some 5), PostStop] init)"
proof -
  let ?evs = "[PostRun ''mainrunner.js'', Close 0 0, PostSchedule (Some 5), PostStop]"
  have h: "serialised ?evs init" by code_simp
  have r: "running (exec ?evs init) = [1]" by code_simp
  have g: "signalled (exec ?evs init) = [1]" by code_simp
  from handle_slot_invariant [of ?evs] h r g show ?thesis by blast
qed

text \<open>
  Claim C2: the code at the failing input. The schedule is started, stopped (interval 0) and
  started again while the first run is still executing: the second start launches a second
  run at once, so two runs of scheduled loops execute together. When the first run then
  exits, its loop arms a delay timer although the second run has not settled, and when
  the second exits too, two delay timers are armed.
\<close>

theorem restart_during_run_overlaps:
  "loopRuns (exec [PostSchedule (Some 5), PostSchedule None, PostSchedule (Some 5)] init)
     = [0, 1]
   \<and> loopRuns (exec [PostSchedule (Some 5), PostSchedule (Some 5)] init) = [0, 1]
   \<and> loopRuns (exec [PostSchedule (Some 5), PostSchedule None, PostSchedule (Some 5),
                      Close 0 0] init) = [1]
   \<and> timers (exec [PostSchedule (Some 5), PostSchedule None, PostSchedule (Some 5),
                    Close 0 0] init) = [(0, 5)]
   \<and> timers (exec [PostSchedule (Some 5), PostSchedule None, PostSchedule (Some 5),
                    Close 0 0, Close 1 0] init) = [(0, 5), (1, 5)]"
  by code_simp

text \<open>
  Claim C8, as stated, fails: nothing ever resets \<^verbatim>\<open>scheduleTimeout\<close>. After a stop request
  it still holds the timer that was cleared, while the schedule is inactive; after the timer
  has fired it still holds it while the next run executes.
\<close>

theorem schedule_timeout_never_reset:
  "scheduleTimeout (exec [PostSchedule (Some 5), Close 0 0, PostStop] init) = Some 0
   \<and> \<not> isScheduled (exec [PostSchedule (Some 5), Close 0 0, PostStop] init)
   \<and> scheduleTimeout (exec [PostSchedule (Some 5), Close 0 0, Timeout 0] init) = Some 0
   \<and> loopRuns (exec [PostSchedule (Some 5), Close 0 0, Timeout 0] init) = [1]"
  by code_simp

text \<open>
  Claim C8, amended. Provided the schedule is never started while a run of a scheduled loop
  is still executing, after every sequence of events at most one delay timer is armed, it
  is the one \<^verbatim>\<open>scheduleTimeout\<close> refers to, and it is armed only while the schedule is active
  and no run of a scheduled loop is executing. In particular a stop followed by a start
  leaves at most one timer armed.
\<close>

theorem armed_timer_invariant:
  assumes "no_start_during_run evs init"
  shows "timers_ok (exec evs init)"
proof -
  have "sched_inv init" by (simp add: sched_inv_def timers_ok_def loopRuns_def init_def)
  from sched_inv_exec [OF this assms] show ?thesis by (simp add: sched_inv_def)
qed

theorem armed_timer_invariant_witness:
  "no_start_during_run
     [PostSchedule (Some 5), Close 0 0, PostStop, PostSchedule (Some 5), Close 1 1] init
   \<and> timers (exec [PostSchedule (Some 5), Close 0 0, PostStop, PostSchedule (Some 5),
                    Close 1 1] init) = [(1, 5)]
   \<and> timers_ok (exec [PostSchedule (Some 5), Close 0 0, PostStop, PostSchedule (Some 5),
                       Close 1 1] init)"
proof -
  let ?evs = "[PostSchedule (Some 5), Close 0 0, PostStop, PostSchedule (Some 5), Close 1 1]"
  have h: "no_start_during_run ?evs init" by code_simp
  have t: "timers (exec ?evs init) = [(1, 5)]" by code_simp
  from armed_timer_invariant [OF h] h t show ?thesis by blast
qed

section \<open>Date and time conversion of the posting stage\<close>

subsection \<open>The civil calendar and the day count of \<^verbatim>\<open>Date.UTC\<close>\<close>

lemma div_step:
  assumes "0 < (k::int)"
  shows "(a + 1) div k - a div k = (if (a + 1) mod k = 0 then 1 else 0)"
proof (cases "a mod k + 1 < k")
  case True
  have r: "0 \<le> a mod k + 1" using assms by (simp add: add_nonneg_nonneg)
  have e: "a + 1 = k * (a div k) + (a mod k + 1)" by simp
  have "(a + 1) div k = a div k" by (rule int_div_pos_eq [OF e r True])
  moreover have "(a + 1) mod k = a mod k + 1" by (rule int_mod_pos_eq [OF e r True])
  moreover have "0 \<le> a mod k" using assms by simp
  ultimately show ?thesis by simp
next
  case False
  moreover have "a mod k < k" using assms by simp
  ultimately have m: "a mod k + 1 = k" by simp
  have "a + 1 = k * (a div k) + (a mod k + 1)" by simp
  then have e: "a + 1 = k * (a div k + 1) + 0" unfolding m by (simp add: algebra_simps)
  have "(a + 1) div k = a div k + 1" by (rule int_div_pos_eq [OF e]) (use assms in simp_all)
  moreover have "(a + 1) mod k = 0" by (rule int_mod_pos_eq [OF e]) (use assms in simp_all)
  ultimately show ?thesis by simp
qed

lemma DayFromYear_step:
  "DayFromYear (y + 1) = DayFromYear y + (if leapYear y then 366 else 365)"
proof -
  define a4 where "a4 = (y - 1969) div 4"
  define a100 where "a100 = (y - 1901) div 100"
  define a400 where "a400 = (y - 1601) div 400"
  define b4 where "b4 = (y - 1968) div 4"
  define b100 where "b100 = (y - 1900) div 100"
  define b400 where "b400 = (y - 1600) div 400"
  have m4: "(y - 1968) mod 4 = y mod 4" using mod_mult_self2 [of y 4 "-492"] by simp
  have m100: "(y - 1900) mod 100 = y mod 100" using mod_mult_self2 [of y 100 "-19"] by simp
  have m400: "(y - 1600) mod 400 = y mod 400" using mod_mult_self2 [of y 400 "-4"] by simp
  have s4: "b4 - a4 = (if y mod 4 = 0 then 1 else 0)"
    using div_step [of 4 "y - 1969"] by (simp add: a4_def b4_def m4)
  have s100: "b100 - a100 = (if y mod 100 = 0 then 1 else 0)"
    using div_step [of 100 "y - 1901"] by (simp add: a100_def b100_def m100)
  have s400: "b400 - a400 = (if y mod 400 = 0 then 1 else 0)"
    using div_step [of 400 "y - 1601"] by (simp add: a400_def b400_def m400)
  have i1: "y mod 400 = 0 \<Longrightarrow> y mod 100 = 0"
    using mod_mod_cancel [of 100 400 y] by simp
  have i2: "y mod 100 = 0 \<Longrightarrow> y mod 4 = 0"
    using mod_mod_cancel [of 4 100 y] by simp
  have e: "DayFromYear (y + 1) = 365 * (y - 1970) + 365 + b4 - b100 + b400"
    by (simp add: DayFromYear_def b4_def b100_def b400_def)
  have f: "DayFromYear y = 365 * (y - 1970) + a4 - a100 + a400"
    by (simp add: DayFromYear_def a4_def a100_def a400_def)
  define p4 where "p4 \<longleftrightarrow> y mod 4 = 0"
  define p100 where "p100 \<longleftrightarrow> y mod 100 = 0"
  define p400 where "p400 \<longleftrightarrow> y mod 400 = 0"
  have imp: "p400 \<longrightarrow> p100" "p100 \<longrightarrow> p4"
    using i1 i2 by (simp_all add: p4_def p100_def p400_def)
  have leap: "leapYear y \<longleftrightarrow> p4 \<and> (\<not> p100 \<or> p400)"
    by (simp add: leapYear_def p4_def p100_def p400_def)
  have d4: "b4 - a4 = (if p4 then 1 else 0)" using s4 by (simp add: p4_def)
  have d100: "b100 - a100 = (if p100 then 1 else 0)" using s100 by (simp add: p100_def)
  have d400: "b400 - a400 = (if p400 then 1 else 0)" using s400 by (simp add: p400_def)
  have g: "b4 - b100 + b400 - (a4 - a100 + a400) = (if leapYear y then 1 else 0)"
  proof -
    have "b4 - b100 + b400 - (a4 - a100 + a400) = (b4 - a4) - (b100 - a100) + (b400 - a400)"
      by simp
    also have "\<dots> = (if p4 \<and> (\<not> p100 \<or> p400) then 1 else 0)"
      unfolding d4 d100 d400 using imp by (cases p4; cases p100; cases p400) simp_all
    finally show ?thesis by (simp only: leap)
  qed
  show ?thesis unfolding e f using g by (simp split: if_splits)
qed


lemma DayFromYear_daysToYear: "DayFromYear (1970 + int n) = daysToYear n"
proof (induction n)
  case 0
  show ?case by (simp add: DayFromYear_def)
next
  case (Suc n)
  have "DayFromYear (1970 + int (Suc n)) = DayFromYear ((1970 + int n) + 1)"
    by (simp add: algebra_simps)
  also have "\<dots> = DayFromYear (1970 + int n) + (if leapYear (1970 + int n) then 366 else 365)"
    by (rule DayFromYear_step)
  finally show ?case using Suc by simp
qed

lemma month_range: "1 \<le> (m::nat) \<Longrightarrow> m \<le> 12 \<Longrightarrow> m \<in> {1,2,3,4,5,6,7,8,9,10,11,12}"
  by simp arith

lemma daysBeforeMonth_sum:
  assumes "1 \<le> m" "m \<le> 12"
  shows "daysBeforeMonth y (m - 1) = sum_list (take (m - 1) (monthLengths y))"
  using month_range [OF assms]
  by (auto simp: daysBeforeMonth_def monthLengths_def InLeapYear_def leapYear_def)

lemma daysInMonth_le: "1 \<le> m \<Longrightarrow> m \<le> 12 \<Longrightarrow> daysInMonth y m \<le> 31"
  using month_range [of m]
  by (auto simp: daysInMonth_def monthLengths_def)

lemma MakeDay_civilDays:
  assumes "1 \<le> m" "m \<le> 12" "1970 \<le> y"
  shows "MakeDay (int y) (int m - 1) (int d) = civilDays y m d"
proof -
  have d0: "(int m - 1) div 12 = 0" and m1: "(int m - 1) mod 12 = int m - 1"
    and m0: "nat (int m - 1) = m - 1"
    using assms by auto
  have "int y = 1970 + int (y - 1970)" using assms by simp
  then have y: "DayFromYear (int y) = daysToYear (y - 1970)"
    by (metis DayFromYear_daysToYear)
  have "MakeDay (int y) (int m - 1) (int d) =
        DayFromYear (int y) + daysBeforeMonth (int y) (m - 1) + int d - 1"
    by (simp only: MakeDay_def Let_def d0 m1 m0) simp
  then show ?thesis
    by (simp only: y daysBeforeMonth_sum [OF assms(1,2)] civilDays_def)
qed

subsection \<open>Reading the rendered date and time strings\<close>

lemma of_char_digit: "k < 10 \<Longrightarrow> (of_char (digit k) :: nat) = 48 + k"
  by (simp add: digit_def)

lemma digit_not_space: "k < 10 \<Longrightarrow> \<not> isSpace (digit k)"
  by (auto simp: isSpace_def of_char_digit)

lemma digit_neq:
  "k < 10 \<Longrightarrow> (of_char c :: nat) < 48 \<or> 57 < (of_char c :: nat) \<Longrightarrow> digit k \<noteq> c"
  by (auto simp: of_char_digit)

lemma digit_neq_literals:
  assumes "k < 10"
  shows "digit k \<noteq> CHR ''/''" "digit k \<noteq> CHR '':''" "digit k \<noteq> CHR ''-''"
    "digit k \<noteq> CHR ''+''" "digit k \<noteq> CHR '' ''"
  using assms by (simp_all add: digit_neq)

lemma digitVal_digit: "k < 10 \<Longrightarrow> digitVal (digit k) = Some k"
  by (simp add: digitVal_def of_char_digit Let_def)

lemma isDigitOf_digit: "k < 10 \<Longrightarrow> isDigitOf 10 (digit k)"
  by (simp add: isDigitOf_def digitVal_digit)

lemma upper_digit: "k < 10 \<Longrightarrow> toUpperCase_char (digit k) = digit k"
  by (simp add: toUpperCase_char_def of_char_digit)

lemma upper_literals:
  "toUpperCase_char CHR '':'' = CHR '':''" "toUpperCase_char CHR '' '' = CHR '' ''"
  "toUpperCase_char CHR ''A'' = CHR ''A''" "toUpperCase_char CHR ''P'' = CHR ''P''"
  "toUpperCase_char CHR ''M'' = CHR ''M''"
  by (simp_all add: toUpperCase_char_def)

lemma space_literals:
  "isSpace CHR '' ''" "\<not> isSpace CHR ''M''"
  by (simp_all add: isSpace_def)

lemma trim_id:
  assumes "s \<noteq> []" "\<not> isSpace (hd s)" "\<not> isSpace (last s)"
  shows "trim s = s"
proof -
  from assms have a: "dropWhile isSpace s = s" by (cases s) auto
  from assms have "rev s \<noteq> []" "\<not> isSpace (hd (rev s))" by (simp_all add: hd_rev)
  then have "dropWhile isSpace (rev s) = rev s" by (cases "rev s") auto
  with a show ?thesis by (simp add: trim_def)
qed

lemma parseInt10_twoDigits:
  assumes "n < 100"
  shows "parseInt10 (trim (twoDigits n)) = Some (int n)"
proof -
  let ?a = "n div 10" and ?b = "n mod 10"
  have a: "?a < 10" and b: "?b < 10" using assms by auto
  have t: "trim (twoDigits n) = twoDigits n"
    by (rule trim_id) (simp_all add: twoDigits_def digit_not_space a b)
  have d: "dropWhile isSpace (twoDigits n) = twoDigits n"
    by (simp add: twoDigits_def digit_not_space a)
  have v: "int (n div 10) * 10 + int (n mod 10) = int n" by arith
  have p: "parseDigits 10 (twoDigits n) = Some (int n)"
    using a b v
    by (simp add: parseDigits_def twoDigits_def isDigitOf_digit digitsValue_def digitVal_digit
          Let_def)
  have "parseSigned False 10 (twoDigits n) = Some (int n)"
    using digit_neq_literals [OF a]
    by (simp add: parseSigned_def twoDigits_def [symmetric] p Let_def)
       (simp add: twoDigits_def p [unfolded twoDigits_def])
  then show ?thesis by (simp add: parseInt10_def t d)
qed

lemma split_on_none: "c \<notin> set xs \<Longrightarrow> split_on c xs = [xs]"
  by (induction xs) auto

lemma split_on_first: "c \<notin> set xs \<Longrightarrow> split_on c (xs @ c # ys) = xs # split_on c ys"
  by (induction xs) auto

lemma twoDigits_no_sep:
  assumes "n < 100"
  shows "CHR ''/'' \<notin> set (twoDigits n)" "CHR '':'' \<notin> set (twoDigits n)"
proof -
  have a: "n div 10 < 10" and b: "n mod 10 < 10" using assms by auto
  from digit_neq_literals [OF a] digit_neq_literals [OF b]
  show "CHR ''/'' \<notin> set (twoDigits n)" "CHR '':'' \<notin> set (twoDigits n)"
    by (auto simp: twoDigits_def)
qed

lemma dateFields_dateString:
  assumes "d < 100" "m < 100" "yy < 100"
  shows "dateFields (dateString d m yy) = [Some (int d), Some (int m), Some (int yy)]"
proof -
  have "dateString d m yy = twoDigits d @ CHR ''/'' # (twoDigits m @ CHR ''/'' # twoDigits yy)"
    by (simp add: dateString_def)
  then have "split_on CHR ''/'' (dateString d m yy) = [twoDigits d, twoDigits m, twoDigits yy]"
    using assms by (simp add: split_on_first split_on_none twoDigits_no_sep)
  then show ?thesis
    using assms by (simp add: dateFields_def parseInt10_twoDigits)
qed

lemma twoDigits_facts:
  assumes "n < 100"
  shows "twoDigits n \<noteq> []" "\<not> isSpace (hd (twoDigits n))" "\<not> isSpace (last (twoDigits n))"
    "length (twoDigits n) = 2" "toUpperCase (twoDigits n) = twoDigits n"
    "last (twoDigits n) \<noteq> CHR ''M''"
proof -
  have a: "n div 10 < 10" and b: "n mod 10 < 10" using assms by auto
  show "twoDigits n \<noteq> []" "\<not> isSpace (hd (twoDigits n))" "\<not> isSpace (last (twoDigits n))"
    "length (twoDigits n) = 2" "toUpperCase (twoDigits n) = twoDigits n"
    "last (twoDigits n) \<noteq> CHR ''M''"
    by (simp_all add: twoDigits_def digit_not_space upper_digit toUpperCase_def digit_neq a b)
qed

lemma clock_parts:
  assumes "h < 100" "mi < 100" "secondsOf sec < 100"
  shows "map (\<lambda>x. parseInt10 (trim x)) (split_on CHR '':'' (clockString h mi sec))
         = Some (int h) # Some (int mi) # (case sec of None \<Rightarrow> [] | Some s \<Rightarrow> [Some (int s)])"
proof (cases sec)
  case None
  have "clockString h mi None = twoDigits h @ CHR '':'' # twoDigits mi"
    by (simp add: clockString_def)
  then have "split_on CHR '':'' (clockString h mi None) = [twoDigits h, twoDigits mi]"
    using assms by (simp add: split_on_first split_on_none twoDigits_no_sep)
  then show ?thesis using assms None by (simp add: parseInt10_twoDigits)
next
  case (Some s)
  with assms have s: "s < 100" by (simp add: secondsOf_def)
  have "clockString h mi (Some s) = twoDigits h @ CHR '':'' # (twoDigits mi @ CHR '':'' # twoDigits s)"
    by (simp add: clockString_def)
  then have "split_on CHR '':'' (clockString h mi (Some s)) = [twoDigits h, twoDigits mi, twoDigits s]"
    using assms s by (simp add: split_on_first split_on_none twoDigits_no_sep)
  then show ?thesis using assms s Some by (simp add: parseInt10_twoDigits)
qed

lemma parseFlexibleTime_plain:
  assumes s: "toUpperCase (trim str) = s"
    and en: "\<not> endsWith s ''AM''" "\<not> endsWith s ''PM''"
    and p: "map (\<lambda>x. parseInt10 (trim x)) (split_on CHR '':'' s) = Some a # Some b # rest"
    and r: "rest = [] \<and> c = 0 \<or> rest = [Some c]"
  shows "parseFlexibleTime str = Inr (Some a, Some b, Some c)"
proof -
  from en have en': "(endsWith s ''AM'' \<or> endsWith s ''PM'') = False" by simp
  have e: "parseFlexibleTime str =
      (let ampm = None; parts = Some a # Some b # rest
       in if length parts < 2 then Inl (InvalidTimeFormat str)
          else
           (let h = at parts 0; m = at parts 1;
                sec = (case at parts 2 of None \<Rightarrow> Some 0
                       | Some v \<Rightarrow> if v = 0 then Some 0 else Some v);
                h1 = (if ampm = Some ''PM'' \<and> num_less h 12 then map_option (\<lambda>x. x + 12) h
                      else h);
                h2 = (if ampm = Some ''AM'' \<and> h1 = Some 12 then Some 0 else h1)
            in Inr (h2, m, sec)))"
    unfolding parseFlexibleTime_def s
    by (simp only: Let_def en' simp_thms if_False if_True p)
  from r show ?thesis unfolding e by (elim disjE conjE) (simp_all add: Let_def at_def)
qed

lemma parseFlexibleTime_suffix:
  assumes s: "toUpperCase (trim str) = base @ CHR '' '' # sfx"
    and sfx: "sfx = ''AM'' \<or> sfx = ''PM''"
    and b: "trim (base @ [CHR '' '']) = base"
    and p: "map (\<lambda>x. parseInt10 (trim x)) (split_on CHR '':'' base) = Some a # Some b' # rest"
    and r: "rest = [] \<and> c = 0 \<or> rest = [Some c]"
  shows "parseFlexibleTime str =
         Inr (if sfx = ''PM'' then (if a < 12 then Some (a + 12) else Some a)
              else (if a = 12 then Some 0 else Some a),
              Some b', Some c)"
proof -
  let ?s = "base @ CHR '' '' # sfx"
  from sfx have len: "length ?s - 2 = length base + 1" by auto
  from sfx have dr: "drop (length ?s - 2) ?s = sfx" unfolding len by auto
  from sfx have tk: "take (length ?s - 2) ?s = base @ [CHR '' '']" unfolding len by auto
  from sfx have en: "(endsWith ?s ''AM'' \<or> endsWith ?s ''PM'') = True"
    using dr by (auto simp: endsWith_def)
  have e: "parseFlexibleTime str =
      (let ampm = Some sfx; parts = Some a # Some b' # rest
       in if length parts < 2 then Inl (InvalidTimeFormat str)
          else
           (let h = at parts 0; m = at parts 1;
                sec = (case at parts 2 of None \<Rightarrow> Some 0
                       | Some v \<Rightarrow> if v = 0 then Some 0 else Some v);
                h1 = (if ampm = Some ''PM'' \<and> num_less h 12 then map_option (\<lambda>x. x + 12) h
                      else h);
                h2 = (if ampm = Some ''AM'' \<and> h1 = Some 12 then Some 0 else h1)
            in Inr (h2, m, sec)))"
    unfolding parseFlexibleTime_def s
    by (simp only: Let_def en dr tk b p if_True option.distinct simp_thms)
  from sfx r show ?thesis
    unfolding e by (elim disjE conjE) (simp_all add: Let_def at_def num_less_def)
qed

lemma endsWith_last:
  assumes "endsWith s sfx" "sfx \<noteq> []"
  shows "last s = last sfx"
proof -
  from assms(1) have "drop (length s - length sfx) s = sfx" by (simp add: endsWith_def)
  then have "s = take (length s - length sfx) s @ sfx"
    by (metis append_take_drop_id)
  then obtain pre where "s = pre @ sfx" ..
  with assms(2) show ?thesis by simp
qed

lemma trim_trailing:
  assumes "s \<noteq> []" "\<not> isSpace (hd s)" "\<not> isSpace (last s)" "isSpace c"
  shows "trim (s @ [c]) = s"
proof -
  from assms have a: "dropWhile isSpace (s @ [c]) = s @ [c]" by (cases s) auto
  from assms have "rev s \<noteq> []" "\<not> isSpace (hd (rev s))" by (simp_all add: hd_rev)
  then have "dropWhile isSpace (rev s) = rev s" by (cases "rev s") auto
  with assms(4) show ?thesis by (simp add: trim_def a)
qed

lemma clock_facts:
  assumes "h < 100" "mi < 100" "secondsOf sec < 100"
  defines "base \<equiv> clockString h mi sec"
  shows "base \<noteq> []" "\<not> isSpace (hd base)" "\<not> isSpace (last base)"
    "last base \<noteq> CHR ''M''" "toUpperCase base = base"
proof -
  have a: "h div 10 < 10" "h mod 10 < 10" "mi div 10 < 10" "mi mod 10 < 10"
    using assms by auto
  have b: "secondsOf sec div 10 < 10" "secondsOf sec mod 10 < 10"
    using assms by auto
  show "base \<noteq> []" "\<not> isSpace (hd base)" "\<not> isSpace (last base)"
    "last base \<noteq> CHR ''M''" "toUpperCase base = base"
    using b
    by (cases sec;
        simp add: base_def clockString_def twoDigits_def digit_not_space digit_neq upper_digit
          upper_literals toUpperCase_def a secondsOf_def)+
qed

lemma seconds_rest:
  "(case sec of None \<Rightarrow> [] | Some s \<Rightarrow> [Some (int s)]) = [] \<and> int (secondsOf sec) = 0
   \<or> (case sec of None \<Rightarrow> [] | Some s \<Rightarrow> [Some (int s)]) = [Some (int (secondsOf sec))]"
  by (cases sec) (simp_all add: secondsOf_def)

lemma timeString_canonical:
  assumes "h < 100" "mi < 100" "secondsOf sec < 100"
  shows "toUpperCase (trim (timeString h mi sec mer)) = timeString h mi sec mer"
proof (cases mer)
  case None
  define base where "base = clockString h mi sec"
  note f = clock_facts [OF assms, folded base_def]
  have eq: "timeString h mi sec None = base" by (simp add: timeString_def base_def)
  have t: "trim base = base" by (rule trim_id [OF f(1,2,3)])
  show ?thesis unfolding None eq by (simp only: t f(5))
next
  case (Some pm)
  define base where "base = clockString h mi sec"
  define sfx where "sfx = (if pm then ''PM'' else ''AM'')"
  note f = clock_facts [OF assms, folded base_def]
  have eq: "timeString h mi sec (Some pm) = base @ CHR '' '' # sfx"
    by (simp add: timeString_def base_def sfx_def)
  have sfx: "sfx = ''AM'' \<or> sfx = ''PM''" by (simp add: sfx_def)
  have hd: "hd (base @ CHR '' '' # sfx) = hd base" using f(1) by simp
  have la: "last (base @ CHR '' '' # sfx) = CHR ''M''" using sfx by auto
  have t: "trim (base @ CHR '' '' # sfx) = base @ CHR '' '' # sfx"
    by (rule trim_id) (simp_all add: hd la f space_literals del: last_appendR last_appendL)
  have u: "toUpperCase (base @ CHR '' '' # sfx) = base @ CHR '' '' # sfx"
    using f(5) sfx by (auto simp: toUpperCase_def upper_literals)
  show ?thesis unfolding Some eq by (simp only: t u)
qed

lemma parseFlexibleTime_canonical:
  assumes "h < 100" "mi < 100" "secondsOf sec < 100"
    and c: "toUpperCase (trim str) = timeString h mi sec mer"
  shows "parseFlexibleTime str =
         Inr (case mer of None \<Rightarrow> Some (int h)
              | Some pm \<Rightarrow>
                  if pm then (if int h < 12 then Some (int h + 12) else Some (int h))
                  else (if int h = 12 then Some 0 else Some (int h)),
              Some (int mi), Some (int (secondsOf sec)))"
proof (cases mer)
  case None
  define base where "base = clockString h mi sec"
  note f = clock_facts [OF assms(1-3), folded base_def]
  have eq: "timeString h mi sec None = base" by (simp add: timeString_def base_def)
  have e: "\<not> endsWith base ''AM''" "\<not> endsWith base ''PM''"
    using f(4) by (auto dest: endsWith_last)
  have p: "map (\<lambda>x. parseInt10 (trim x)) (split_on CHR '':'' base)
           = Some (int h) # Some (int mi) # (case sec of None \<Rightarrow> [] | Some s \<Rightarrow> [Some (int s)])"
    unfolding base_def by (rule clock_parts [OF assms(1-3)])
  have "parseFlexibleTime str = Inr (Some (int h), Some (int mi), Some (int (secondsOf sec)))"
    by (rule parseFlexibleTime_plain [where s = base, OF _ e p seconds_rest])
       (simp only: c None eq)
  then show ?thesis unfolding None by simp
next
  case (Some pm)
  define base where "base = clockString h mi sec"
  define sfx where "sfx = (if pm then ''PM'' else ''AM'')"
  note f = clock_facts [OF assms(1-3), folded base_def]
  have eq: "timeString h mi sec (Some pm) = base @ CHR '' '' # sfx"
    by (simp add: timeString_def base_def sfx_def)
  have sfx: "sfx = ''AM'' \<or> sfx = ''PM''" by (simp add: sfx_def)
  have tb: "trim (base @ [CHR '' '']) = base"
    by (rule trim_trailing [OF f(1,2,3)]) (simp add: space_literals)
  have p: "map (\<lambda>x. parseInt10 (trim x)) (split_on CHR '':'' base)
           = Some (int h) # Some (int mi) # (case sec of None \<Rightarrow> [] | Some s \<Rightarrow> [Some (int s)])"
    unfolding base_def by (rule clock_parts [OF assms(1-3)])
  have "parseFlexibleTime str =
         Inr (if sfx = ''PM'' then (if int h < 12 then Some (int h + 12) else Some (int h))
              else (if int h = 12 then Some 0 else Some (int h)),
              Some (int mi), Some (int (secondsOf sec)))"
    by (rule parseFlexibleTime_suffix [where base = base, OF _ sfx tb p seconds_rest])
       (simp only: c Some eq)
  then show ?thesis unfolding Some by (cases pm) (simp_all add: sfx_def)
qed

subsection \<open>The conversion\<close>

lemma month_cases:
  "1 \<le> (m::int) \<Longrightarrow> m \<le> 12 \<Longrightarrow> m - 1 \<in> {0,1,2,3,4,5,6,7,8,9,10,11}"
  by simp arith

lemma daysBeforeMonth_bounds:
  assumes "1 \<le> (m::int)" "m \<le> 12"
  shows "0 \<le> daysBeforeMonth y (nat ((m - 1) mod 12)) \<and> daysBeforeMonth y (nat ((m - 1) mod 12)) \<le> 335"
proof -
  from assms have "m - 1 \<in> {0,1,2,3,4,5,6,7,8,9,10,11}" by (rule month_cases)
  then show ?thesis
    by (auto simp: daysBeforeMonth_def)
qed

lemma year_days_range:
  "2000 \<le> (y::int) \<Longrightarrow> y \<le> 2099 \<Longrightarrow> 0 \<le> a \<Longrightarrow> a \<le> y - 1969 \<Longrightarrow> 0 \<le> b
   \<Longrightarrow> b \<le> y - 1901 \<Longrightarrow> 0 \<le> c \<Longrightarrow> c \<le> y - 1601
   \<Longrightarrow> 10000 \<le> 365 * (y - 1970) + a - b + c \<and> 365 * (y - 1970) + a - b + c \<le> 50000"
  by simp

lemma DayFromYear_bounds:
  assumes "2000 \<le> y" "y \<le> 2099"
  shows "10000 \<le> DayFromYear y \<and> DayFromYear y \<le> 50000"
proof -
  have "0 \<le> (y - 1969) div 4 \<and> (y - 1969) div 4 \<le> y - 1969" using assms by arith
  moreover have "0 \<le> (y - 1901) div 100 \<and> (y - 1901) div 100 \<le> y - 1901"
    using assms by arith
  moreover have "0 \<le> (y - 1601) div 400 \<and> (y - 1601) div 400 \<le> y - 1601"
    using assms by arith
  ultimately show ?thesis using assms unfolding DayFromYear_def
    by (intro year_days_range) simp_all
qed

lemma ms_in_range:
  "10000 \<le> (D::int) \<Longrightarrow> D \<le> 51000 \<Longrightarrow> 0 \<le> h \<Longrightarrow> h < 24 \<Longrightarrow> 0 \<le> mi \<Longrightarrow> mi < 60
   \<Longrightarrow> 0 \<le> s \<Longrightarrow> s < 60
   \<Longrightarrow> 0 \<le> 1000 * (D * 86400 + h * 3600 + mi * 60 + s)
       \<and> 1000 * (D * 86400 + h * 3600 + mi * 60 + s) \<le> 8640000000000000"
  by simp

lemma MakeDay_bounds:
  assumes "1 \<le> m" "m \<le> 12" "0 \<le> yy" "yy \<le> 99" "1 \<le> d" "d \<le> 31"
  shows "10000 \<le> MakeDay (2000 + yy) (m - 1) d \<and> MakeDay (2000 + yy) (m - 1) d \<le> 51000"
proof -
  have "(m - 1) div 12 = 0" using assms by simp
  then have "MakeDay (2000 + yy) (m - 1) d =
      DayFromYear (2000 + yy) + daysBeforeMonth (2000 + yy) (nat ((m - 1) mod 12)) + d - 1"
    by (simp add: MakeDay_def Let_def)
  moreover have "10000 \<le> DayFromYear (2000 + yy) \<and> DayFromYear (2000 + yy) \<le> 50000"
    using assms by (intro DayFromYear_bounds) simp_all
  moreover note daysBeforeMonth_bounds [OF assms(1,2), of "2000 + yy"]
  ultimately show ?thesis using assms by (intro conjI) linarith+
qed

lemma convert_valid:
  assumes f: "dateFields dateStr = [Some d, Some m, Some yy]"
    and r: "1 \<le> d" "d \<le> 31" "1 \<le> m" "m \<le> 12" "0 \<le> yy" "yy \<le> 99"
    and t: "parseFlexibleTime timeStr = Inr (Some h, Some mi, Some s)"
    and tr: "0 \<le> h" "h < 24" "0 \<le> mi" "mi < 60" "0 \<le> s" "s < 60"
  shows "convertISTToUTCUnix dateStr timeStr =
         Inr (Some (MakeDay (2000 + yy) (m - 1) d * 86400 + h * 3600 + mi * 60 + s - 330 * 60))"
proof -
  let ?day = "MakeDay (2000 + yy) (m - 1) d"
  let ?ms = "MakeDate ?day (MakeTime h mi s 0)"
  have b: "10000 \<le> ?day \<and> ?day \<le> 51000"
    using r by (intro MakeDay_bounds) simp_all
  have ms: "?ms = 1000 * (?day * 86400 + h * 3600 + mi * 60 + s)"
    by (simp add: MakeDate_def MakeTime_def)
  have "0 \<le> ?ms \<and> ?ms \<le> 8640000000000000"
    unfolding ms using b tr by (intro ms_in_range) simp_all
  then have clip: "TimeClip ?ms = Some ?ms" by (simp add: TimeClip_def)
  have fy: "MakeFullYear (2000 + yy) = 2000 + yy" using r by (simp add: MakeFullYear_def)
  have utc: "Date_UTC (Some (2000 + yy)) (Some (m - 1)) (Some d) (Some h) (Some mi) (Some s) = Some ?ms"
    by (simp add: Date_UTC_def fy clip)
  have "(?ms - 330 * 60 * 1000) div 1000 = ?day * 86400 + h * 3600 + mi * 60 + s - 330 * 60"
    unfolding ms by simp
  with utc f r t show ?thesis
    by (simp add: convertISTToUTCUnix_def Let_def at_def num_less_def num_greater_def
          IST_OFFSET_MIN_def)
qed

lemma convert_fields:
  assumes f: "dateFields dateStr = [Some (int d), Some (int m), Some (int yy)]"
    and r: "1 \<le> d" "d \<le> 31" "1 \<le> m" "m \<le> 12" "yy \<le> 99"
    and t: "parseFlexibleTime timeStr = Inr (Some (int h), Some (int mi), Some (int s))"
    and tr: "h < 24" "mi < 60" "s < 60"
  shows "convertISTToUTCUnix dateStr timeStr =
         Inr (Some (unixTime (2000 + yy) m d h mi s - 330 * 60))"
proof -
  have "convertISTToUTCUnix dateStr timeStr =
         Inr (Some (MakeDay (2000 + int yy) (int m - 1) (int d) * 86400
                    + int h * 3600 + int mi * 60 + int s - 330 * 60))"
    using r tr by (intro convert_valid [OF f _ _ _ _ _ _ t]) simp_all
  moreover have "MakeDay (int (2000 + yy)) (int m - 1) (int d) = civilDays (2000 + yy) m d"
    using r by (intro MakeDay_civilDays) simp_all
  ultimately show ?thesis by (simp add: unixTime_def)
qed

lemma hour24_code:
  assumes "case mer of None \<Rightarrow> h < 24 | Some pm \<Rightarrow> 1 \<le> h \<and> h \<le> 12"
  shows "(case mer of None \<Rightarrow> Some (int h)
          | Some pm \<Rightarrow>
              if pm then (if int h < 12 then Some (int h + 12) else Some (int h))
              else (if int h = 12 then Some 0 else Some (int h)))
         = Some (int (hour24 h mer))"
    and "hour24 h mer < 24"
  using assms by (auto simp: hour24_def split: option.splits)

lemma convert_canonical:
  assumes d: "1 \<le> m" "m \<le> 12" "1 \<le> d" "d \<le> daysInMonth (2000 + yy) m" "yy < 100"
    and t: "case mer of None \<Rightarrow> h < 24 | Some pm \<Rightarrow> 1 \<le> h \<and> h \<le> 12"
      "mi < 60" "secondsOf sec < 60"
    and c: "toUpperCase (trim timeStr) = timeString h mi sec mer"
  shows "convertISTToUTCUnix (dateString d m yy) timeStr =
         Inr (Some (unixTime (2000 + yy) m d (hour24 h mer) mi (secondsOf sec) - 330 * 60))"
proof -
  have d31: "d \<le> 31" using d daysInMonth_le [OF d(1,2), of "2000 + yy"] by simp
  have h100: "h < 100" using t(1) by (cases mer) simp_all
  have f: "dateFields (dateString d m yy) = [Some (int d), Some (int m), Some (int yy)]"
    using d d31 by (intro dateFields_dateString) simp_all
  have "parseFlexibleTime timeStr =
         Inr (case mer of None \<Rightarrow> Some (int h)
              | Some pm \<Rightarrow>
                  if pm then (if int h < 12 then Some (int h + 12) else Some (int h))
                  else (if int h = 12 then Some 0 else Some (int h)),
              Some (int mi), Some (int (secondsOf sec)))"
    using t h100 by (intro parseFlexibleTime_canonical [OF _ _ _ c]) simp_all
  then have p: "parseFlexibleTime timeStr =
           Inr (Some (int (hour24 h mer)), Some (int mi), Some (int (secondsOf sec)))"
    by (simp only: hour24_code(1) [OF t(1)])
  show ?thesis
    using d d31 t hour24_code(2) [OF t(1)]
    by (intro convert_fields [OF f _ _ _ _ _ p]) simp_all
qed

lemma convert_strings:
  assumes d: "1 \<le> m" "m \<le> 12" "1 \<le> d" "d \<le> daysInMonth (2000 + yy) m" "yy < 100"
    and t: "case mer of None \<Rightarrow> h < 24 | Some pm \<Rightarrow> 1 \<le> h \<and> h \<le> 12"
      "mi < 60" "secondsOf sec < 60"
  shows "convertISTToUTCUnix (dateString d m yy) (timeString h mi sec mer) =
         Inr (Some (unixTime (2000 + yy) m d (hour24 h mer) mi (secondsOf sec) - 330 * 60))"
proof -
  have h100: "h < 100" using t(1) by (cases mer) simp_all
  have "toUpperCase (trim (timeString h mi sec mer)) = timeString h mi sec mer"
    using t h100 by (intro timeString_canonical) simp_all
  with d t show ?thesis by (rule convert_canonical)
qed

lemma convert_rejects:
  assumes "num_greater (at (dateFields dateStr) 1) 12"
  shows "convertISTToUTCUnix dateStr timeStr = Inl InvalidMonth"
  using assms by (simp add: convertISTToUTCUnix_def Let_def)

lemma convert_rejects_strings:
  assumes "12 < m" "m < 100" "d < 100" "yy < 100"
  shows "convertISTToUTCUnix (dateString d m yy) timeStr = Inl InvalidMonth"
proof -
  have "dateFields (dateString d m yy) = [Some (int d), Some (int m), Some (int yy)]"
    using assms by (intro dateFields_dateString) simp_all
  then have "num_greater (at (dateFields (dateString d m yy)) 1) 12"
    using assms by (simp add: at_def num_greater_def)
  then show ?thesis by (rule convert_rejects)
qed

text \<open>
  Claim C4. \<^verbatim>\<open>convertISTToUTCUnix\<close> throws whenever the month field of the date (the second
  of the pieces between slashes, read by \<^verbatim>\<open>parseInt\<close>) is greater than 12; so it throws
  on every date string DD/MM/YY whose MM is 13 to 99, whatever the time, and on 31/13/25.
  For every date string DD/MM/YY of a day that exists in the calendar (month 1 to 12, day 1
  to the length of that month in the year 2000 + YY) and every time string HH:MM or
  HH:MM:SS, on the 24-hour clock (hour below 24) or followed by AM or PM (hour 1 to 12),
  with minute and second below 60, it returns the Unix time of that civil date and time
  read as UTC, minus 330 minutes; the hour is the one that the clock reading stands for
  (12 AM is 0, 12 PM is 12, the other PM hours add 12) and a time without seconds has
  second 0. The same holds for a time string that becomes such a string once trimmed and
  put in upper case, and for any strings whose fields parse to such numbers (day up to
  31, carried over into the next month as \<^verbatim>\<open>Date.UTC\<close> does). For 05/06/25 and 09:00 AM
  the result is 1749094200 (2025-06-05T03:30:00Z).
\<close>

theorem convertISTToUTCUnix_spec:
  "(num_greater (at (dateFields dateStr) 1) 12 \<longrightarrow>
      convertISTToUTCUnix dateStr timeStr = Inl InvalidMonth)
   \<and> (12 < m \<and> m < 100 \<and> d < 100 \<and> yy < 100 \<longrightarrow>
      convertISTToUTCUnix (dateString d m yy) timeStr = Inl InvalidMonth)
   \<and> (1 \<le> m \<and> m \<le> 12 \<and> 1 \<le> d \<and> d \<le> daysInMonth (2000 + yy) m \<and> yy < 100
        \<and> (case mer of None \<Rightarrow> h < 24 | Some pm \<Rightarrow> 1 \<le> h \<and> h \<le> 12)
        \<and> mi < 60 \<and> secondsOf sec < 60 \<longrightarrow>
      convertISTToUTCUnix (dateString d m yy) (timeString h mi sec mer) =
        Inr (Some (unixTime (2000 + yy) m d (hour24 h mer) mi (secondsOf sec) - 330 * 60)))
   \<and> (1 \<le> m \<and> m \<le> 12 \<and> 1 \<le> d \<and> d \<le> daysInMonth (2000 + yy) m \<and> yy < 100
        \<and> (case mer of None \<Rightarrow> h < 24 | Some pm \<Rightarrow> 1 \<le> h \<and> h \<le> 12)
        \<and> mi < 60 \<and> secondsOf sec < 60
        \<and> toUpperCase (trim timeStr) = timeString h mi sec mer \<longrightarrow>
      convertISTToUTCUnix (dateString d m yy) timeStr =
        Inr (Some (unixTime (2000 + yy) m d (hour24 h mer) mi (secondsOf sec) - 330 * 60)))
   \<and> (dateFields dateStr = [Some (int d), Some (int m), Some (int yy)]
        \<and> 1 \<le> d \<and> d \<le> 31 \<and> 1 \<le> m \<and> m \<le> 12 \<and> yy \<le> 99
        \<and> parseFlexibleTime timeStr = Inr (Some (int h), Some (int mi), Some (int s))
        \<and> h < 24 \<and> mi < 60 \<and> s < 60 \<longrightarrow>
      convertISTToUTCUnix dateStr timeStr =
        Inr (Some (unixTime (2000 + yy) m d h mi s - 330 * 60)))
   \<and> convertISTToUTCUnix ''31/13/25'' timeStr = Inl InvalidMonth
   \<and> convertISTToUTCUnix ''05/06/25'' ''09:00 AM'' = Inr (Some 1749094200)"
proof -
  have f: "dateFields ''31/13/25'' = [Some 31, Some 13, Some 25]" by code_simp
  have "num_greater (at (dateFields ''31/13/25'') 1) 12"
    by (simp add: f at_def num_greater_def)
  then have a: "convertISTToUTCUnix ''31/13/25'' timeStr = Inl InvalidMonth"
    by (rule convert_rejects)
  have b: "convertISTToUTCUnix ''05/06/25'' ''09:00 AM'' = Inr (Some 1749094200)"
    by code_simp
  have r: "num_greater (at (dateFields dateStr) 1) 12 \<longrightarrow>
      convertISTToUTCUnix dateStr timeStr = Inl InvalidMonth"
    by (intro impI; rule convert_rejects)
  have rs: "12 < m \<and> m < 100 \<and> d < 100 \<and> yy < 100 \<longrightarrow>
      convertISTToUTCUnix (dateString d m yy) timeStr = Inl InvalidMonth"
    by (intro impI; elim conjE; rule convert_rejects_strings; assumption)
  have cs: "1 \<le> m \<and> m \<le> 12 \<and> 1 \<le> d \<and> d \<le> daysInMonth (2000 + yy) m \<and> yy < 100
        \<and> (case mer of None \<Rightarrow> h < 24 | Some pm \<Rightarrow> 1 \<le> h \<and> h \<le> 12)
        \<and> mi < 60 \<and> secondsOf sec < 60 \<longrightarrow>
      convertISTToUTCUnix (dateString d m yy) (timeString h mi sec mer) =
        Inr (Some (unixTime (2000 + yy) m d (hour24 h mer) mi (secondsOf sec) - 330 * 60))"
    by (intro impI; elim conjE; rule convert_strings; assumption)
  have cc: "1 \<le> m \<and> m \<le> 12 \<and> 1 \<le> d \<and> d \<le> daysInMonth (2000 + yy) m \<and> yy < 100
        \<and> (case mer of None \<Rightarrow> h < 24 | Some pm \<Rightarrow> 1 \<le> h \<and> h \<le> 12)
        \<and> mi < 60 \<and> secondsOf sec < 60
        \<and> toUpperCase (trim timeStr) = timeString h mi sec mer \<longrightarrow>
      convertISTToUTCUnix (dateString d m yy) timeStr =
        Inr (Some (unixTime (2000 + yy) m d (hour24 h mer) mi (secondsOf sec) - 330 * 60))"
    by (intro impI; elim conjE; rule convert_canonical; assumption)
  have c: "dateFields dateStr = [Some (int d), Some (int m), Some (int yy)]
        \<and> 1 \<le> d \<and> d \<le> 31 \<and> 1 \<le> m \<and> m \<le> 12 \<and> yy \<le> 99
        \<and> parseFlexibleTime timeStr = Inr (Some (int h), Some (int mi), Some (int s))
        \<and> h < 24 \<and> mi < 60 \<and> s < 60 \<longrightarrow>
      convertISTToUTCUnix dateStr timeStr =
        Inr (Some (unixTime (2000 + yy) m d h mi s - 330 * 60))"
    by (intro impI; elim conjE; rule convert_fields; assumption)
  from r rs cs cc c a b show ?thesis by (intro conjI)
qed

theorem convertISTToUTCUnix_spec_witness:
  "dateString 5 6 25 = ''05/06/25''
   \<and> timeString 9 0 None (Some False) = ''09:00 AM''
   \<and> daysInMonth 2025 6 = 30
   \<and> hour24 9 (Some False) = 9
   \<and> unixTime 2025 6 5 9 0 0 = 1749114000
   \<and> convertISTToUTCUnix (dateString 5 6 25) (timeString 9 0 None (Some False))
       = Inr (Some (unixTime 2025 6 5 9 0 0 - 330 * 60))
   \<and> timeString 12 30 (Some 15) (Some False) = ''12:30:15 AM''
   \<and> convertISTToUTCUnix (dateString 29 2 24) (timeString 12 30 (Some 15) (Some False))
       = Inr (Some (unixTime 2024 2 29 0 30 15 - 330 * 60))
   \<and> toUpperCase (trim '' 09:00 pm '') = timeString 9 0 None (Some True)
   \<and> convertISTToUTCUnix (dateString 5 6 25) '' 09:00 pm ''
       = Inr (Some (unixTime 2025 6 5 21 0 0 - 330 * 60))
   \<and> dateString 31 13 25 = ''31/13/25''
   \<and> convertISTToUTCUnix (dateString 31 13 25) ''09:00 AM'' = Inl InvalidMonth
   \<and> dateFields ''5/6/25'' = [Some 5, Some 6, Some 25]
   \<and> parseFlexibleTime ''9:00 pm'' = Inr (Some 21, Some 0, Some 0)
   \<and> convertISTToUTCUnix ''5/6/25'' ''9:00 pm''
       = Inr (Some (unixTime 2025 6 5 21 0 0 - 330 * 60))
   \<and> num_greater (at (dateFields ''1/13/2025'') 1) 12
   \<and> convertISTToUTCUnix ''1/13/2025'' ''09:00 AM'' = Inl InvalidMonth"
proof -
  have s1: "dateString 5 6 25 = ''05/06/25''" by code_simp
  have s2: "timeString 9 0 None (Some False) = ''09:00 AM''" by code_simp
  have s3: "daysInMonth 2025 6 = 30" by code_simp
  have s4: "hour24 9 (Some False) = 9" by code_simp
  have s5: "unixTime 2025 6 5 9 0 0 = 1749114000" by code_simp
  have p1: "1 \<le> (6::nat) \<and> (6::nat) \<le> 12 \<and> 1 \<le> (5::nat) \<and> 5 \<le> daysInMonth (2000 + 25) 6
            \<and> (25::nat) < 100
            \<and> (case Some False of None \<Rightarrow> (9::nat) < 24 | Some pm \<Rightarrow> 1 \<le> (9::nat) \<and> (9::nat) \<le> 12)
            \<and> (0::nat) < 60 \<and> secondsOf None < 60"
    by (simp add: s3 secondsOf_def)
  have c1: "convertISTToUTCUnix (dateString 5 6 25) (timeString 9 0 None (Some False))
       = Inr (Some (unixTime 2025 6 5 9 0 0 - 330 * 60))"
    using convertISTToUTCUnix_spec
            [where d = 5 and m = 6 and yy = 25 and h = 9 and mi = 0 and sec = None
               and mer = "Some False",
             THEN conjunct2, THEN conjunct2, THEN conjunct1, THEN mp, OF p1]
    by (simp add: s4 secondsOf_def)
  have s6: "timeString 12 30 (Some 15) (Some False) = ''12:30:15 AM''" by code_simp
  have s7: "daysInMonth 2024 2 = 29" by code_simp
  have s8: "hour24 12 (Some False) = 0" by code_simp
  have p2: "1 \<le> (2::nat) \<and> (2::nat) \<le> 12 \<and> 1 \<le> (29::nat) \<and> 29 \<le> daysInMonth (2000 + 24) 2
            \<and> (24::nat) < 100
            \<and> (case Some False of None \<Rightarrow> (12::nat) < 24 | Some pm \<Rightarrow> 1 \<le> (12::nat) \<and> (12::nat) \<le> 12)
            \<and> (30::nat) < 60 \<and> secondsOf (Some 15) < 60"
    by (simp add: s7 secondsOf_def)
  have c2: "convertISTToUTCUnix (dateString 29 2 24) (timeString 12 30 (Some 15) (Some False))
       = Inr (Some (unixTime 2024 2 29 0 30 15 - 330 * 60))"
    using convertISTToUTCUnix_spec
            [where d = 29 and m = 2 and yy = 24 and h = 12 and mi = 30 and sec = "Some 15"
               and mer = "Some False",
             THEN conjunct2, THEN conjunct2, THEN conjunct1, THEN mp, OF p2]
    by (simp add: s8 secondsOf_def)
  have u1: "toUpperCase (trim '' 09:00 pm '') = timeString 9 0 None (Some True)" by code_simp
  have u2: "hour24 9 (Some True) = 21" by code_simp
  have p5: "1 \<le> (6::nat) \<and> (6::nat) \<le> 12 \<and> 1 \<le> (5::nat) \<and> 5 \<le> daysInMonth (2000 + 25) 6
            \<and> (25::nat) < 100
            \<and> (case Some True of None \<Rightarrow> (9::nat) < 24 | Some pm \<Rightarrow> 1 \<le> (9::nat) \<and> (9::nat) \<le> 12)
            \<and> (0::nat) < 60 \<and> secondsOf None < 60
            \<and> toUpperCase (trim '' 09:00 pm '') = timeString 9 0 None (Some True)"
    using u1 by (simp add: s3 secondsOf_def)
  have c6: "convertISTToUTCUnix (dateString 5 6 25) '' 09:00 pm ''
       = Inr (Some (unixTime 2025 6 5 21 0 0 - 330 * 60))"
    using convertISTToUTCUnix_spec
            [where d = 5 and m = 6 and yy = 25 and h = 9 and mi = 0 and sec = None
               and mer = "Some True" and timeStr = "'' 09:00 pm ''",
             THEN conjunct2, THEN conjunct2, THEN conjunct2, THEN conjunct1, THEN mp, OF p5]
    by (simp add: u2 secondsOf_def)
  have s9: "dateString 31 13 25 = ''31/13/25''" by code_simp
  have p3: "(12::nat) < 13 \<and> (13::nat) < 100 \<and> (31::nat) < 100 \<and> (25::nat) < 100" by simp
  have c3: "convertISTToUTCUnix (dateString 31 13 25) ''09:00 AM'' = Inl InvalidMonth"
    by (rule convertISTToUTCUnix_spec
            [where d = 31 and m = 13 and yy = 25 and timeStr = "''09:00 AM''",
             THEN conjunct2, THEN conjunct1, THEN mp, OF p3])
  have f: "dateFields ''5/6/25'' = [Some 5, Some 6, Some 25]" by code_simp
  have t: "parseFlexibleTime ''9:00 pm'' = Inr (Some 21, Some 0, Some 0)" by code_simp
  have p4: "dateFields ''5/6/25'' = [Some (int 5), Some (int 6), Some (int 25)]
        \<and> 1 \<le> (5::nat) \<and> (5::nat) \<le> 31 \<and> 1 \<le> (6::nat) \<and> (6::nat) \<le> 12 \<and> (25::nat) \<le> 99
        \<and> parseFlexibleTime ''9:00 pm'' = Inr (Some (int 21), Some (int 0), Some (int 0))
        \<and> (21::nat) < 24 \<and> (0::nat) < 60 \<and> (0::nat) < 60"
    by (simp add: f t)
  have c4: "convertISTToUTCUnix ''5/6/25'' ''9:00 pm''
       = Inr (Some (unixTime 2025 6 5 21 0 0 - 330 * 60))"
    using convertISTToUTCUnix_spec
            [where dateStr = "''5/6/25''" and timeStr = "''9:00 pm''"
               and d = 5 and m = 6 and yy = 25 and h = 21 and mi = 0 and s = 0,
             THEN conjunct2, THEN conjunct2, THEN conjunct2, THEN conjunct2, THEN conjunct1, THEN mp, OF p4]
    by simp
  have g: "num_greater (at (dateFields ''1/13/2025'') 1) 12" by code_simp
  have c5: "convertISTToUTCUnix ''1/13/2025'' ''09:00 AM'' = Inl InvalidMonth"
    by (rule convertISTToUTCUnix_spec
            [where dateStr = "''1/13/2025''" and timeStr = "''09:00 AM''",
             THEN conjunct1, THEN mp, OF g])
  from s1 s2 s3 s4 s5 c1 s6 c2 u1 c6 s9 c3 f t c4 g c5 show ?thesis by (intro conjI)
qed

section \<open>The posting stage\<close>


lemma selectMedia_None: "selectMedia cs = None \<longleftrightarrow> (\<forall>c\<in>set cs. c = [])"
  by (auto simp: selectMedia_def find_None_iff)

lemma selectMedia_Some:
  "selectMedia cs = Some x \<longleftrightarrow>
     (\<exists>i<length cs. cs ! i = x \<and> x \<noteq> [] \<and> (\<forall>j<i. cs ! j = []))"
  by (auto simp: selectMedia_def find_Some_iff)

lemma selectMedia_four:
  "selectMedia [a, b, c, d] =
     (if a \<noteq> [] then Some a else if b \<noteq> [] then Some b
      else if c \<noteq> [] then Some c else if d \<noteq> [] then Some d else None)"
  by (simp add: selectMedia_def)

text \<open>
  Claim C5. Media selection returns the first non-empty candidate in the order NewImageLink,
  ImageWithTextEmbedded, ImageWithLogoEmbedded, GenImage (the values as \<^verbatim>\<open>get\<close> returns them,
  trimmed); for the candidates \<^verbatim>\<open>["", "b", "c"]\<close> it returns \<^verbatim>\<open>"b"\<close>. A row that has passed the
  earlier checks downloads the selected media first; when all candidates are empty it is
  closed with the status \<^verbatim>\<open>failed: no media link\<close> and the all-complete flag, and nothing is
  downloaded or posted. Every download of a row is of its selected media.
\<close>

theorem media_priority_selection:
  "selectMedia [[], ''b'', ''c''] = Some ''b''
   \<and> (selectMedia cs = Some x \<longleftrightarrow>
        (\<exists>i<length cs. cs ! i = x \<and> x \<noteq> [] \<and> (\<forall>j<i. cs ! j = [])))
   \<and> (selectMedia cs = None \<longleftrightarrow> (\<forall>c\<in>set cs. c = []))
   \<and> selectMedia (mediaLinks hi row) =
       (if get hi row ''NewImageLink'' \<noteq> [] then Some (get hi row ''NewImageLink'')
        else if get hi row ''ImageWithTextEmbedded'' \<noteq> []
        then Some (get hi row ''ImageWithTextEmbedded'')
        else if get hi row ''ImageWithLogoEmbedded'' \<noteq> []
        then Some (get hi row ''ImageWithLogoEmbedded'')
        else if get hi row ''GenImage'' \<noteq> [] then Some (get hi row ''GenImage'')
        else None)
   \<and> (rowChecks cfg hi row = Proceed \<and> selectMedia (mediaLinks hi row) = Some link \<longrightarrow>
        (\<exists>rest. postRow cfg w hi rowNum row = Download link # rest))
   \<and> (rowChecks cfg hi row = Proceed \<and> selectMedia (mediaLinks hi row) = None \<longrightarrow>
        postRow cfg w hi rowNum row = closeRow hi rowNum ''failed: no media link'')
   \<and> (Download link \<in> set (postRow cfg w hi rowNum row) \<longrightarrow>
        selectMedia (mediaLinks hi row) = Some link)"
proof -
  have a: "selectMedia [[], ''b'', ''c''] = Some ''b''" by (simp add: selectMedia_def)
  have d: "selectMedia (mediaLinks hi row) =
       (if get hi row ''NewImageLink'' \<noteq> [] then Some (get hi row ''NewImageLink'')
        else if get hi row ''ImageWithTextEmbedded'' \<noteq> []
        then Some (get hi row ''ImageWithTextEmbedded'')
        else if get hi row ''ImageWithLogoEmbedded'' \<noteq> []
        then Some (get hi row ''ImageWithLogoEmbedded'')
        else if get hi row ''GenImage'' \<noteq> [] then Some (get hi row ''GenImage'')
        else None)"
    unfolding mediaLinks_def by (rule selectMedia_four)
  have e: "rowChecks cfg hi row = Proceed \<and> selectMedia (mediaLinks hi row) = Some link \<longrightarrow>
        (\<exists>rest. postRow cfg w hi rowNum row = Download link # rest)"
    by (simp add: postRow_def)
  have f: "rowChecks cfg hi row = Proceed \<and> selectMedia (mediaLinks hi row) = None \<longrightarrow>
        postRow cfg w hi rowNum row = closeRow hi rowNum ''failed: no media link''"
    by (simp add: postRow_def)
  have g: "Download link \<in> set (postRow cfg w hi rowNum row) \<longrightarrow>
        selectMedia (mediaLinks hi row) = Some link"
    by (auto simp: postRow_def closeRow_def updateSheet_def Let_def
             split: decision.splits option.splits sum.splits if_splits)
  from a selectMedia_Some selectMedia_None d e f g show ?thesis by (intro conjI)
qed

lemma shouldSchedule_iff: "shouldSchedule (Some t) now \<longleftrightarrow> t - now > 600"
  by (simp add: shouldSchedule_def num_greater_def)

lemma postRow_publish:
  assumes "rowChecks cfg hi row = Proceed"
    and "selectMedia (mediaLinks hi row) = Some link"
    and "downloadFileFromDrive w link = Some ct"
    and "convertISTToUTCUnix (get hi row ''PostDate(DD/MM/YY)'')
           (get hi row ''PostTime(HH:MM AM/PM)'') = Inr (Some t)"
    and "\<not> DRY_RUN cfg"
  shows "\<exists>k msg rest.
           postRow cfg w hi rowNum row =
             Download link
             # FbPost k (t - clock w rowNum > 600)
                 (if t - clock w rowNum > 600 then Some t else None) msg
             # rest
           \<and> (fbPost w k (t - clock w rowNum > 600)
                 (if t - clock w rowNum > 600 then Some t else None) msg = None \<longrightarrow>
              rest = updateSheet hi rowNum ''PostStatus''
                       (if t - clock w rowNum > 600 then ''scheduled'' else ''posted'')
                     @ updateSheet hi rowNum ''AllProcessComplete'' ''yes'')"
  using assms
  by (simp add: postRow_def Let_def shouldSchedule_iff split: option.splits)

text \<open>
  Claim C9. The posting stage schedules exactly when the target time is more than 600
  seconds after now: a target 5 minutes ahead (or exactly 10) is posted at once, one 15
  minutes ahead is scheduled. For a row that reaches the post, outside dry-run mode, the
  post call carries that decision and the target time, and on success the status written
  is \<^verbatim>\<open>scheduled\<close> or \<^verbatim>\<open>posted\<close> accordingly, followed by the all-complete flag.
\<close>

theorem publish_threshold:
  "(shouldSchedule (Some t) now \<longleftrightarrow> t - now > 600)
   \<and> \<not> shouldSchedule (Some (now + 5 * 60)) now
   \<and> shouldSchedule (Some (now + 15 * 60)) now
   \<and> \<not> shouldSchedule (Some (now + 600)) now
   \<and> shouldSchedule (Some (now + 601)) now
   \<and> (rowChecks cfg hi row = Proceed
        \<and> selectMedia (mediaLinks hi row) = Some link
        \<and> downloadFileFromDrive w link = Some ct
        \<and> convertISTToUTCUnix (get hi row ''PostDate(DD/MM/YY)'')
             (get hi row ''PostTime(HH:MM AM/PM)'') = Inr (Some t)
        \<and> \<not> DRY_RUN cfg \<longrightarrow>
      (\<exists>k msg rest.
           postRow cfg w hi rowNum row =
             Download link
             # FbPost k (t - clock w rowNum > 600)
                 (if t - clock w rowNum > 600 then Some t else None) msg
             # rest
           \<and> (fbPost w k (t - clock w rowNum > 600)
                 (if t - clock w rowNum > 600 then Some t else None) msg = None \<longrightarrow>
              rest = updateSheet hi rowNum ''PostStatus''
                       (if t - clock w rowNum > 600 then ''scheduled'' else ''posted'')
                     @ updateSheet hi rowNum ''AllProcessComplete'' ''yes'')))"
proof -
  have a: "shouldSchedule (Some t) now \<longleftrightarrow> t - now > 600" by (rule shouldSchedule_iff)
  have b: "\<not> shouldSchedule (Some (now + 5 * 60)) now" by (simp add: shouldSchedule_iff)
  have c: "shouldSchedule (Some (now + 15 * 60)) now" by (simp add: shouldSchedule_iff)
  have d: "\<not> shouldSchedule (Some (now + 600)) now" by (simp add: shouldSchedule_iff)
  have e: "shouldSchedule (Some (now + 601)) now" by (simp add: shouldSchedule_iff)
  have f: "rowChecks cfg hi row = Proceed
        \<and> selectMedia (mediaLinks hi row) = Some link
        \<and> downloadFileFromDrive w link = Some ct
        \<and> convertISTToUTCUnix (get hi row ''PostDate(DD/MM/YY)'')
             (get hi row ''PostTime(HH:MM AM/PM)'') = Inr (Some t)
        \<and> \<not> DRY_RUN cfg \<longrightarrow>
      (\<exists>k msg rest.
           postRow cfg w hi rowNum row =
             Download link
             # FbPost k (t - clock w rowNum > 600)
                 (if t - clock w rowNum > 600 then Some t else None) msg
             # rest
           \<and> (fbPost w k (t - clock w rowNum > 600)
                 (if t - clock w rowNum > 600 then Some t else None) msg = None \<longrightarrow>
              rest = updateSheet hi rowNum ''PostStatus''
                       (if t - clock w rowNum > 600 then ''scheduled'' else ''posted'')
                     @ updateSheet hi rowNum ''AllProcessComplete'' ''yes''))"
    by (intro impI; elim conjE; rule postRow_publish; assumption)
  from a b c d e f show ?thesis by (intro conjI)
qed

lemma headerIndex_fold_None:
  "fold (\<lambda>(i, h) m. m(h \<mapsto> i)) (enumerate k hs) m0 n = None \<longleftrightarrow> n \<notin> set hs \<and> m0 n = None"
  by (induction hs arbitrary: k m0) auto

lemma headerIndex_None: "headerIndex hs n = None \<longleftrightarrow> n \<notin> set hs"
  by (simp add: headerIndex_def headerIndex_fold_None)

lemma find_enumerate_None:
  "find (\<lambda>(i, y). y = x) (enumerate k xs) = None \<longleftrightarrow> x \<notin> set xs"
  by (induction xs arbitrary: k) auto

lemma indexOf_None: "indexOf xs x = None \<longleftrightarrow> x \<notin> set xs"
  by (simp add: indexOf_def find_enumerate_None)

lemma updateSheet_updates: "list_all isUpdate (updateSheet hi n c v)"
  by (simp add: updateSheet_def split: option.splits)

lemma closeRow_updates: "list_all isUpdate (closeRow hi n s)"
  by (simp add: closeRow_def updateSheet_updates)

lemma not_update_notin:
  "list_all isUpdate effs \<Longrightarrow> \<not> isUpdate e \<Longrightarrow> e \<notin> set effs"
  by (auto simp: list_all_iff)

lemma filter_updates: "list_all isUpdate effs \<Longrightarrow> filter isUpdate effs = effs"
  by (induction effs) auto

lemma postRow_skip:
  assumes "toLowerCase (get hi row ''PostStatus'') = ''posted''
           \<or> toLowerCase (get hi row ''PostStatus'') = ''scheduled''
           \<or> toLowerCase (get hi row ''AllProcessComplete'') = ''yes''"
  shows "postRow cfg w hi rowNum row = []"
  using assms by (auto simp: postRow_def rowChecks_def Let_def)

lemma setCell_nth: "setCell idx v row ! idx = v" and setCell_length: "idx < length (setCell idx v row)"
  by (auto simp: setCell_def)

lemma trim_yes: "trim ''yes'' = ''yes''" by code_simp
lemma lower_yes: "toLowerCase ''yes'' = ''yes''" by code_simp

lemma commit_append: "commit n (xs @ ys) row = commit n ys (commit n xs row)"
  by (simp add: commit_def)

lemma commit_closeRow_flag:
  assumes "hi ''AllProcessComplete'' = Some idx"
  shows "get hi (commit n (closeRow hi n status) row) ''AllProcessComplete'' = ''yes''"
proof -
  have "colValue (toColLetter idx) - 1 = idx" by (simp add: toColLetter_def colValue_loop)
  then have "commit n (closeRow hi n status) row =
        setCell idx ''yes'' (commit n (updateSheet hi n ''PostStatus'' status) row)"
    using assms by (simp add: closeRow_def commit_append) (simp add: commit_def updateSheet_def)
  then show ?thesis
    using assms by (simp add: get_def setCell_nth setCell_length trim_yes)
qed

lemma postRow_closed_skipped:
  assumes "hi ''AllProcessComplete'' = Some idx"
  shows "postRow cfg' w' hi n (commit n (closeRow hi n status) row) = []"
  by (rule postRow_skip)
     (simp add: commit_closeRow_flag [where hi = hi and idx = idx, OF assms] lower_yes)


lemma rowChecks_status_length: "rowChecks cfg hi row = Closed status \<Longrightarrow> length status \<le> 208"
  by (auto simp: rowChecks_def Let_def split: if_splits)

lemma postRow_cases:
  obtains (skip) "postRow cfg w hi n row = []"
  | (closed) status where "postRow cfg w hi n row = closeRow hi n status" "length status \<le> 208"
  | (download_failed) l where
      "postRow cfg w hi n row = Download l # closeRow hi n ''failed: download error''"
      "downloadFileFromDrive w l = None"
  | (bad_time) l where
      "postRow cfg w hi n row = Download l # closeRow hi n ''failed: invalid date/time''"
      "downloadFileFromDrive w l \<noteq> None"
  | (dry) l sched where
      "postRow cfg w hi n row =
         Download l # updateSheet hi n ''PostStatus''
                        (''dry-run: '' @ (if sched then ''scheduled'' else ''posted''))"
      "downloadFileFromDrive w l \<noteq> None"
  | (posted) l k s t m where
      "postRow cfg w hi n row =
         Download l # FbPost k s t m #
         (updateSheet hi n ''PostStatus'' (if s then ''scheduled'' else ''posted'')
          @ updateSheet hi n ''AllProcessComplete'' ''yes'')"
      "fbPost w k s t m = None" "downloadFileFromDrive w l \<noteq> None"
  | (post_failed) l k s t m fbMsg where
      "postRow cfg w hi n row =
         Download l # FbPost k s t m # closeRow hi n (''failed: '' @ take 200 fbMsg)"
      "fbPost w k s t m = Some fbMsg" "downloadFileFromDrive w l \<noteq> None"
proof (cases "rowChecks cfg hi row")
  case Skip
  then show ?thesis by (intro skip) (simp add: postRow_def)
next
  case (Closed status)
  then show ?thesis
    by (intro closed [of status]) (simp_all add: postRow_def rowChecks_status_length)
next
  case Proceed
  show ?thesis
  proof (cases "selectMedia (mediaLinks hi row)")
    case None
    with Proceed show ?thesis
      by (intro closed [of "''failed: no media link''"]) (simp_all add: postRow_def)
  next
    case (Some l)
    show ?thesis
    proof (cases "downloadFileFromDrive w l")
      case None
      with Proceed Some show ?thesis
        by (intro download_failed [of l]) (simp_all add: postRow_def)
    next
      case ct: (Some contentType)
      show ?thesis
      proof (cases "convertISTToUTCUnix (get hi row ''PostDate(DD/MM/YY)'')
                      (get hi row ''PostTime(HH:MM AM/PM)'')")
        case (Inl e)
        with Proceed Some ct show ?thesis
          by (intro bad_time [of l]) (simp_all add: postRow_def)
      next
        case (Inr publishUnix)
        define sched where "sched = shouldSchedule publishUnix (clock w n)"
        define knd where "knd = (if startsWith contentType ''image/'' then Photo else Video)"
        define message where
          "message = trim (get hi row ''Caption'' @ '' '' @ get hi row ''Hashtags'')"
        define publishTime where "publishTime = (if sched then publishUnix else None)"
        show ?thesis
        proof (cases "DRY_RUN cfg")
          case True
          with Proceed Some ct Inr show ?thesis
            by (intro dry [of l sched]) (simp_all add: postRow_def Let_def sched_def)
        next
          case False
          show ?thesis
          proof (cases "fbPost w knd sched publishTime message")
            case None
            with Proceed Some ct Inr False show ?thesis
              by (intro posted [of l knd sched publishTime message])
                 (simp_all add: postRow_def Let_def sched_def knd_def message_def publishTime_def)
          next
            case fb: (Some fbMsg)
            with Proceed Some ct Inr False show ?thesis
              by (intro post_failed [of l knd sched publishTime message fbMsg])
                 (simp_all add: postRow_def Let_def sched_def knd_def message_def publishTime_def)
          qed
        qed
      qed
    qed
  qed
qed


lemma updateSheet_no_FbPost: "FbPost k s t m \<notin> set (updateSheet hi n c v)"
  and updateSheet_no_Download: "Download l \<notin> set (updateSheet hi n c v)"
  by (simp_all add: updateSheet_def split: option.splits)

lemma closeRow_no_FbPost: "FbPost k s t m \<notin> set (closeRow hi n st)"
  and closeRow_no_Download: "Download l \<notin> set (closeRow hi n st)"
  by (simp_all add: closeRow_def updateSheet_no_FbPost updateSheet_no_Download)

lemmas no_calls = updateSheet_no_FbPost updateSheet_no_Download closeRow_no_FbPost
  closeRow_no_Download

lemma postRow_post_failure:
  assumes "FbPost k s t m \<in> set (postRow cfg w hi n row)" and "fbPost w k s t m = Some fbMsg"
  shows "filter isUpdate (postRow cfg w hi n row) = closeRow hi n (''failed: '' @ take 200 fbMsg)"
  using assms
  by (cases rule: postRow_cases [of cfg w hi n row])
     (auto simp: no_calls filter_updates closeRow_updates)

lemma postRow_download_failure:
  assumes "Download l \<in> set (postRow cfg w hi n row)" and "downloadFileFromDrive w l = None"
  shows "filter isUpdate (postRow cfg w hi n row) = closeRow hi n ''failed: download error''"
  using assms
  by (cases rule: postRow_cases [of cfg w hi n row])
     (auto simp: no_calls filter_updates closeRow_updates)

lemma updateSheet_written:
  "length v \<le> b \<Longrightarrow> e \<in> set (updateSheet hi n c v) \<Longrightarrow> x \<in> set (written e) \<Longrightarrow> length x \<le> b"
  by (auto simp: updateSheet_def split: option.splits)

lemma closeRow_written:
  "length st \<le> 208 \<Longrightarrow> e \<in> set (closeRow hi n st) \<Longrightarrow> x \<in> set (written e) \<Longrightarrow> length x \<le> 208"
  by (auto simp: closeRow_def dest: updateSheet_written [rotated])

lemma postRow_written_bounded:
  assumes "e \<in> set (postRow cfg w hi n row)" and "x \<in> set (written e)"
  shows "length x \<le> 208"
  using assms
proof (cases rule: postRow_cases [of cfg w hi n row])
  case skip
  with assms show ?thesis by simp
next
  case (closed status)
  with assms show ?thesis by (auto dest: closeRow_written [rotated])
next
  case (download_failed l)
  with assms show ?thesis by (auto dest: closeRow_written [rotated])
next
  case (bad_time l)
  with assms show ?thesis by (auto dest: closeRow_written [rotated])
next
  case (dry l sched)
  with assms show ?thesis by (auto dest: updateSheet_written [where b = 208, rotated])
next
  case (posted l k s t m)
  with assms show ?thesis by (auto dest: updateSheet_written [where b = 208, rotated])
next
  case (post_failed l k s t m fbMsg)
  have "length (''failed: '' @ take 200 fbMsg) \<le> 208" by simp
  with post_failed assms show ?thesis by (auto dest: closeRow_written [rotated])
qed

section \<open>The other stages\<close>


lemma genimage_skip:
  "cell row genCompleteCol = ''Complete'' \<Longrightarrow> genimage_row w a b genCompleteCol n row = []"
  by (simp add: genimage_row_def Let_def)

lemma embedlogo_skip:
  "toLowerCase (cell row completeCol) = ''complete''
   \<Longrightarrow> embedlogo_row w a b c completeCol e f n row = []"
  by (simp add: embedlogo_row_def Let_def)

lemma embedtxt_skip:
  "padRow numCols row ! the (colMap ''TextEmbedComplete'') = ''Complete''
   \<Longrightarrow> embedtxt_row w colMap numCols n row = []"
  by (simp add: embedtxt_row_def Let_def)

lemma genimage_failure:
  assumes "Invoke n inputs \<in> set (genimage_row w a b c n row)"
    and "collaborator w n inputs = Inl message"
  shows "genimage_row w a b c n row = [Invoke n inputs, updateCell c n (''Error: '' @ message)]"
  using assms
  by (auto simp: genimage_row_def Let_def updateCell_def split: if_splits sum.splits)

lemma embedlogo_failure:
  assumes "Invoke n inputs \<in> set (embedlogo_row w a b c completeCol e f n row)"
    and "collaborator w n inputs = Inl message"
  shows "embedlogo_row w a b c completeCol e f n row =
         [Invoke n inputs, updateCell completeCol n (''Error: '' @ message)]"
  using assms
  by (auto simp: embedlogo_row_def Let_def updateCell_def split: if_splits sum.splits)

lemma embedtxt_failure:
  assumes "Invoke r inputs \<in> set (embedtxt_row w colMap numCols n row)"
    and "collaborator w r inputs = Inl message"
  shows "embedtxt_row w colMap numCols n row =
         [Invoke r inputs,
          UpdateRow (n + 1)
            ((padRow numCols row)[the (colMap ''TextEmbedComplete'') := ''Error: '' @ message])]"
  using assms
  by (auto simp: embedtxt_row_def Let_def split: if_splits sum.splits)

lemma genField_failure:
  assumes "collaborator w n inputs = Inl message"
  shows "genField w n column [] inputs = [Invoke n inputs]"
  using assms by (simp add: genField_def)

text \<open>What the next run does with a row whose step has failed.\<close>

lemma colLetter_index: "colValue (columnNumberToLetter (c + 1)) - 1 = c"
  by (simp add: columnNumberToLetter_def loops_agree colValue_loop)

lemma cell_setCell: "cell (setCell i v row) j = (if j = i then v else cell row j)"
  by (auto simp: cell_def setCell_def nth_append nth_list_update)

lemma commit_updateCell: "commit n [Invoke n inputs, updateCell c n v] row = setCell c v row"
  using colLetter_index [of c] by (simp add: commit_def updateCell_def)

lemma find_enumerate_Some:
  "find (\<lambda>(i, y). y = x) (enumerate k xs) = Some (i, y)
   \<Longrightarrow> k \<le> i \<and> i < k + length xs \<and> xs ! (i - k) = x"
proof (induction xs arbitrary: k)
  case Nil
  then show ?case by simp
next
  case (Cons a xs)
  show ?case
  proof (cases "a = x")
    case True
    with Cons.prems show ?thesis by simp
  next
    case False
    with Cons.prems have "find (\<lambda>(i, y). y = x) (enumerate (Suc k) xs) = Some (i, y)" by simp
    from Cons.IH [OF this] show ?thesis by (auto simp: nth_Cons')
  qed
qed

lemma indexOf_Some:
  assumes "indexOf xs x = Some i"
  shows "i < length xs \<and> xs ! i = x"
proof -
  from assms obtain y where "find (\<lambda>(i, y). y = x) (enumerate 0 xs) = Some (i, y)"
    by (auto simp: indexOf_def)
  from find_enumerate_Some [OF this] show ?thesis by simp
qed

lemma indexOf_distinct:
  "indexOf xs x = Some i \<Longrightarrow> indexOf xs y = Some j \<Longrightarrow> x \<noteq> y \<Longrightarrow> i \<noteq> j"
  by (auto dest!: indexOf_Some)

lemma headerIndex_fold_Some:
  "fold (\<lambda>(i, h) m. m(h \<mapsto> i)) (enumerate k hs) m0 x = Some i
   \<Longrightarrow> m0 x = Some i \<or> (k \<le> i \<and> i < k + length hs \<and> hs ! (i - k) = x)"
proof (induction hs arbitrary: k m0)
  case Nil
  then show ?case by simp
next
  case (Cons a hs)
  from Cons.prems Cons.IH [of "Suc k" "m0(a \<mapsto> k)"] show ?case
    by (auto simp: nth_Cons' split: if_splits)
qed

lemma headerIndex_Some:
  assumes "headerIndex hs x = Some i"
  shows "i < length hs \<and> hs ! i = x"
  using headerIndex_fold_Some [of 0 hs Map.empty x i] assms
  by (simp add: headerIndex_def)

lemma headerIndex_distinct:
  "headerIndex hs x = Some i \<Longrightarrow> headerIndex hs y = Some j \<Longrightarrow> x \<noteq> y \<Longrightarrow> i \<noteq> j"
  by (auto dest!: headerIndex_Some)

lemma lower_E: "toLowerCase_char CHR ''E'' = CHR ''e''"
  by code_simp

lemma error_not_complete:
  "''Error: '' @ message \<noteq> ''Complete''"
  "toLowerCase (''Error: '' @ message) \<noteq> ''complete''"
  "CHR ''E'' # s \<noteq> ''Complete''"
  "toLowerCase (CHR ''E'' # s) \<noteq> ''complete''"
  by (simp_all add: toLowerCase_def lower_E)

lemma genimage_retry:
  assumes ne: "a \<noteq> c"
    and inv: "Invoke n inputs \<in> set (genimage_row w a b c n row)"
    and fail: "collaborator w n inputs = Inl message"
  shows "\<exists>rest. genimage_row w' a b c n (commit n (genimage_row w a b c n row) row)
                 = Invoke n inputs # rest"
proof -
  have e: "genimage_row w a b c n row = [Invoke n inputs, updateCell c n (''Error: '' @ message)]"
    by (rule genimage_failure [OF inv fail])
  from inv have i: "inputs = [cell row a]" "cell row a \<noteq> []"
    by (auto simp: genimage_row_def Let_def updateCell_def split: if_splits sum.splits)
  show ?thesis
    unfolding e commit_updateCell
    using ne i by (simp add: genimage_row_def Let_def cell_setCell error_not_complete)
qed

lemma embedlogo_retry:
  assumes ne: "completeCol \<noteq> embedCol" "completeCol \<noteq> logoUrlCol" "completeCol \<noteq> logoPosCol"
      "completeCol \<noteq> genImageCol"
    and inv: "Invoke n inputs
                \<in> set (embedlogo_row w embedCol logoUrlCol logoPosCol completeCol outputCol
                          genImageCol n row)"
    and fail: "collaborator w n inputs = Inl message"
  shows "\<exists>rest. embedlogo_row w' embedCol logoUrlCol logoPosCol completeCol outputCol genImageCol n
                   (commit n (embedlogo_row w embedCol logoUrlCol logoPosCol completeCol outputCol
                                genImageCol n row) row)
                 = Invoke n inputs # rest"
proof -
  have e: "embedlogo_row w embedCol logoUrlCol logoPosCol completeCol outputCol genImageCol n row
           = [Invoke n inputs, updateCell completeCol n (''Error: '' @ message)]"
    by (rule embedlogo_failure [OF inv fail])
  from inv have i: "inputs = [cell row genImageCol, cell row logoUrlCol, cell row logoPosCol]"
    "toLowerCase (cell row embedCol) = ''yes''" "cell row genImageCol \<noteq> []"
    "cell row logoUrlCol \<noteq> []"
    by (auto simp: embedlogo_row_def Let_def updateCell_def split: if_splits sum.splits)
  show ?thesis
    unfolding e commit_updateCell
    using ne i by (simp add: embedlogo_row_def Let_def cell_setCell error_not_complete)
qed

lemma padRow_length: "numCols \<le> length (padRow numCols row)" "length row \<le> length (padRow numCols row)"
  by (simp_all add: padRow_def)

lemma padRow_id: "numCols \<le> length row \<Longrightarrow> padRow numCols row = row"
  by (simp add: padRow_def)

lemma embedtxt_retry:
  fixes colMap numCols row message
  defines "tc \<equiv> the (colMap ''TextEmbedComplete'')"
  defines "failed \<equiv> (padRow numCols row)[tc := ''Error: '' @ message]"
  assumes lt: "tc < numCols"
    and ne: "tc \<noteq> the (colMap ''EmbedText(yes/no)'')" "tc \<noteq> the (colMap ''TextContent'')"
      "tc \<noteq> the (colMap ''ImageWithLogoEmbedded'')" "tc \<noteq> the (colMap ''GenImage'')"
    and inv: "Invoke r inputs \<in> set (embedtxt_row w colMap numCols n row)"
    and fail: "collaborator w r inputs = Inl message"
  shows "commit (n + 1) (embedtxt_row w colMap numCols n row) row = failed"
    and "\<exists>rest. embedtxt_row w' colMap numCols n failed
                 = Invoke (n + 1) (hd inputs # failed) # rest"
proof -
  let ?row = "padRow numCols row"
  have e: "embedtxt_row w colMap numCols n row = [Invoke r inputs, UpdateRow (n + 1) failed]"
    unfolding failed_def tc_def by (rule embedtxt_failure [OF inv fail])
  have len: "length failed = length ?row" by (simp add: failed_def)
  have l1: "numCols \<le> length failed" "length row \<le> length failed"
    unfolding len by (rule padRow_length)+
  show c: "commit (n + 1) (embedtxt_row w colMap numCols n row) row = failed"
    unfolding e using l1 by (simp add: commit_def)
  have p: "padRow numCols failed = failed" by (rule padRow_id [OF l1(1)])
  have tcl: "tc < length ?row" using lt padRow_length(1) [of numCols row] by simp
  have st: "failed ! tc = ''Error: '' @ message" using tcl by (simp add: failed_def)
  have same: "\<And>j. tc \<noteq> j \<Longrightarrow> failed ! j = ?row ! j" by (simp add: failed_def)
  from inv have i:
    "toLowerCase (trim (?row ! the (colMap ''EmbedText(yes/no)''))) = ''yes''"
    "trim (?row ! the (colMap ''TextContent'')) \<noteq> []"
    "(if trim (?row ! the (colMap ''ImageWithLogoEmbedded'')) = []
      then trim (?row ! the (colMap ''GenImage''))
      else trim (?row ! the (colMap ''ImageWithLogoEmbedded''))) \<noteq> []"
    "hd inputs = (if trim (?row ! the (colMap ''ImageWithLogoEmbedded'')) = []
      then trim (?row ! the (colMap ''GenImage''))
      else trim (?row ! the (colMap ''ImageWithLogoEmbedded'')))"
    by (auto simp: embedtxt_row_def Let_def split: if_splits sum.splits)
  show "\<exists>rest. embedtxt_row w' colMap numCols n failed
                 = Invoke (n + 1) (hd inputs # failed) # rest"
    using i st ne
    by (auto simp add: embedtxt_row_def Let_def p tc_def [symmetric] same error_not_complete
          split: if_splits)
qed

lemma genimage_retry_header:
  assumes "indexOf headers ''ImagePrompt'' = Some a" and "indexOf headers ''GenComplete'' = Some c"
    and inv: "Invoke n inputs \<in> set (genimage_row w a b c n row)"
    and fail: "collaborator w n inputs = Inl message"
  shows "\<exists>rest. genimage_row w' a b c n (commit n (genimage_row w a b c n row) row)
                 = Invoke n inputs # rest"
proof -
  from indexOf_distinct [OF assms(1,2)] have "a \<noteq> c" by simp
  then show ?thesis using inv fail by (rule genimage_retry)
qed

lemma logo_names:
  "normalizeHeader ''LogoEmbedComplete'' \<noteq> normalizeHeader ''EmbedLogo''"
  "normalizeHeader ''LogoEmbedComplete'' \<noteq> normalizeHeader ''LogoUrl''"
  "normalizeHeader ''LogoEmbedComplete'' \<noteq> normalizeHeader ''LogoPosition''"
  "normalizeHeader ''LogoEmbedComplete'' \<noteq> normalizeHeader ''GenImage''"
  by code_simp+

lemma embedlogo_retry_header:
  assumes e: "col normalized ''EmbedLogo'' = Some embedCol"
    and u: "col normalized ''LogoUrl'' = Some logoUrlCol"
    and p: "col normalized ''LogoPosition'' = Some logoPosCol"
    and c: "col normalized ''LogoEmbedComplete'' = Some completeCol"
    and g: "col normalized ''GenImage'' = Some genImageCol"
    and inv: "Invoke n inputs
                \<in> set (embedlogo_row w embedCol logoUrlCol logoPosCol completeCol outputCol
                          genImageCol n row)"
    and fail: "collaborator w n inputs = Inl message"
  shows "\<exists>rest. embedlogo_row w' embedCol logoUrlCol logoPosCol completeCol outputCol genImageCol n
                   (commit n (embedlogo_row w embedCol logoUrlCol logoPosCol completeCol outputCol
                                genImageCol n row) row)
                 = Invoke n inputs # rest"
proof -
  note d = indexOf_distinct [OF c [unfolded col_def]]
  have "completeCol \<noteq> embedCol" by (rule d [OF e [unfolded col_def] logo_names(1)])
  moreover have "completeCol \<noteq> logoUrlCol" by (rule d [OF u [unfolded col_def] logo_names(2)])
  moreover have "completeCol \<noteq> logoPosCol" by (rule d [OF p [unfolded col_def] logo_names(3)])
  moreover have "completeCol \<noteq> genImageCol" by (rule d [OF g [unfolded col_def] logo_names(4)])
  ultimately show ?thesis using inv fail by (rule embedlogo_retry)
qed

lemma requiredCols_found:
  assumes "find (\<lambda>c. colMap c = None) requiredCols = None"
  shows "\<exists>i. colMap ''TextEmbedComplete'' = Some i" "\<exists>i. colMap ''EmbedText(yes/no)'' = Some i"
    "\<exists>i. colMap ''TextContent'' = Some i" "\<exists>i. colMap ''ImageWithLogoEmbedded'' = Some i"
    "\<exists>i. colMap ''GenImage'' = Some i"
proof -
  from assms have a: "\<And>c. c \<in> set requiredCols \<Longrightarrow> \<exists>i. colMap c = Some i"
    by (auto simp: find_None_iff)
  show "\<exists>i. colMap ''TextEmbedComplete'' = Some i" by (rule a) (simp add: requiredCols_def)
  show "\<exists>i. colMap ''EmbedText(yes/no)'' = Some i" by (rule a) (simp add: requiredCols_def)
  show "\<exists>i. colMap ''TextContent'' = Some i" by (rule a) (simp add: requiredCols_def)
  show "\<exists>i. colMap ''ImageWithLogoEmbedded'' = Some i" by (rule a) (simp add: requiredCols_def)
  show "\<exists>i. colMap ''GenImage'' = Some i" by (rule a) (simp add: requiredCols_def)
qed

lemma embedtxt_retry_header:
  fixes headers :: "string list"
  defines "colMap \<equiv> headerIndex (map trim headers)"
  assumes found: "find (\<lambda>c. colMap c = None) requiredCols = None"
    and inv: "Invoke r inputs \<in> set (embedtxt_row w colMap (length headers) n row)"
    and fail: "collaborator w r inputs = Inl message"
  shows "commit (n + 1) (embedtxt_row w colMap (length headers) n row) row
         = (padRow (length headers) row)[the (colMap ''TextEmbedComplete'') := ''Error: '' @ message]
         \<and> (\<exists>rest. embedtxt_row w' colMap (length headers) n
                     (commit (n + 1) (embedtxt_row w colMap (length headers) n row) row)
                   = Invoke (n + 1)
                       (hd inputs
                        # commit (n + 1) (embedtxt_row w colMap (length headers) n row) row)
                     # rest)"
proof -
  from requiredCols_found [OF found] obtain tc e t l g
    where c: "colMap ''TextEmbedComplete'' = Some tc" "colMap ''EmbedText(yes/no)'' = Some e"
      "colMap ''TextContent'' = Some t" "colMap ''ImageWithLogoEmbedded'' = Some l"
      "colMap ''GenImage'' = Some g"
    by blast
  note h = c [unfolded colMap_def]
  from headerIndex_Some [OF h(1)] have lt: "the (colMap ''TextEmbedComplete'') < length headers"
    by (simp add: c)
  have ne: "the (colMap ''TextEmbedComplete'') \<noteq> the (colMap ''EmbedText(yes/no)'')"
    "the (colMap ''TextEmbedComplete'') \<noteq> the (colMap ''TextContent'')"
    "the (colMap ''TextEmbedComplete'') \<noteq> the (colMap ''ImageWithLogoEmbedded'')"
    "the (colMap ''TextEmbedComplete'') \<noteq> the (colMap ''GenImage'')"
    using headerIndex_distinct [OF h(1) h(2)] headerIndex_distinct [OF h(1) h(3)]
      headerIndex_distinct [OF h(1) h(4)] headerIndex_distinct [OF h(1) h(5)]
    by (simp_all add: c)
  note r = embedtxt_retry [OF lt ne inv fail]
  show ?thesis unfolding r(1) using r(2) [of w'] by simp
qed


lemma storeAfter_nth:
  "i < length rows \<Longrightarrow> storeAfter effs rows ! i = commit (i + 2) effs (rows ! i)"
  by (simp add: storeAfter_def nth_enumerate_eq)

lemma storeAfter_length: "length (storeAfter effs rows) = length rows"
  by (simp add: storeAfter_def)

lemma commit_other:
  "(\<And>e r. e \<in> set effs \<Longrightarrow> applyToRow n e r = r) \<Longrightarrow> commit n effs row = row"
  by (induction effs arbitrary: row) (simp_all add: commit_def)

lemma enumerate_split:
  assumes "i < length rows"
  shows "enumerate 0 rows
         = enumerate 0 (take i rows) @ (i, rows ! i) # enumerate (Suc i) (drop (Suc i) rows)"
proof -
  have "rows = take i rows @ rows ! i # drop (Suc i) rows"
    using assms by (rule id_take_nth_drop)
  then have "enumerate 0 rows = enumerate 0 (take i rows @ rows ! i # drop (Suc i) rows)"
    by simp
  also have "\<dots> = enumerate 0 (take i rows) @ (i, rows ! i) # enumerate (Suc i) (drop (Suc i) rows)"
    using assms by (simp add: enumerate_append_eq min_def)
  finally show ?thesis .
qed

lemma run_commit:
  assumes local: "\<And>k row e r n. 2 \<le> k \<Longrightarrow> e \<in> set (f k row) \<Longrightarrow> n \<noteq> k
                  \<Longrightarrow> applyToRow n e r = r"
    and i: "i < length rows"
  shows "commit (i + 2) (concat (map (\<lambda>(j, row). f (j + 2) row) (enumerate 0 rows))) r
         = commit (i + 2) (f (i + 2) (rows ! i)) r"
proof -
  let ?g = "\<lambda>(j, row). f (j + 2) row"
  let ?A = "concat (map ?g (enumerate 0 (take i rows)))"
  let ?B = "concat (map ?g (enumerate (Suc i) (drop (Suc i) rows)))"
  have e: "concat (map ?g (enumerate 0 rows)) = ?A @ f (i + 2) (rows ! i) @ ?B"
    by (subst enumerate_split [OF i]) simp
  have a: "commit (i + 2) ?A r' = r'" for r'
  proof (rule commit_other)
    fix e r assume "e \<in> set ?A"
    then obtain j row where "(j, row) \<in> set (enumerate 0 (take i rows))" "e \<in> set (f (j + 2) row)"
      by auto
    then have "j < i" "e \<in> set (f (j + 2) row)" by (auto simp: in_set_enumerate_eq)
    then show "applyToRow (i + 2) e r = r" by (intro local) auto
  qed
  have b: "commit (i + 2) ?B r' = r'" for r'
  proof (rule commit_other)
    fix e r assume "e \<in> set ?B"
    then obtain j row where "(j, row) \<in> set (enumerate (Suc i) (drop (Suc i) rows))"
      "e \<in> set (f (j + 2) row)"
      by auto
    then have "i < j" "e \<in> set (f (j + 2) row)" by (auto simp: in_set_enumerate_eq)
    then show "applyToRow (i + 2) e r = r" by (intro local) auto
  qed
  show ?thesis by (simp only: e commit_append a b)
qed

lemma run_member:
  "e \<in> set (concat (map (\<lambda>(j, row). f (j + 2) row) (enumerate 0 rows)))
   \<longleftrightarrow> (\<exists>i<length rows. e \<in> set (f (i + 2) (rows ! i)))"
  by (force simp: in_set_enumerate_eq)

lemma genimage_row_local:
  "2 \<le> k \<Longrightarrow> e \<in> set (genimage_row w a b c k row) \<Longrightarrow> n \<noteq> k \<Longrightarrow> applyToRow n e r = r"
  by (auto simp: genimage_row_def Let_def updateCell_def split: if_splits sum.splits)

lemma genimage_row_invoke:
  "Invoke n inputs \<in> set (genimage_row w a b c k row) \<Longrightarrow> n = k"
  by (auto simp: genimage_row_def Let_def updateCell_def split: if_splits sum.splits)

lemma genimage_run_retry:
  assumes run: "genimage_run w headers rows = Finished effs"
    and inv: "Invoke n inputs \<in> set effs"
    and fail: "collaborator w n inputs = Inl message"
  shows "\<exists>effs'. genimage_run w' headers (storeAfter effs rows) = Finished effs'
                  \<and> Invoke n inputs \<in> set effs'"
proof -
  from run obtain a b c
    where cols: "indexOf headers ''ImagePrompt'' = Some a" "indexOf headers ''GenImage'' = Some b"
      "indexOf headers ''GenComplete'' = Some c"
    by (auto simp: genimage_run_def split: option.splits)
  let ?f = "genimage_row w a b c" and ?f' = "genimage_row w' a b c"
  from run cols have effs: "effs = concat (map (\<lambda>(j, row). ?f (j + 2) row) (enumerate 0 rows))"
    by (simp add: genimage_run_def)
  from inv obtain i where i: "i < length rows" "Invoke n inputs \<in> set (?f (i + 2) (rows ! i))"
    unfolding effs run_member by blast
  from genimage_row_invoke [OF i(2)] have n: "n = i + 2" .
  have "storeAfter effs rows ! i = commit (i + 2) (?f (i + 2) (rows ! i)) (rows ! i)"
    unfolding storeAfter_nth [OF i(1)] effs
    by (rule run_commit [OF genimage_row_local i(1)])
  moreover from genimage_retry_header [OF cols(1,3) i(2) [unfolded n [symmetric]] fail, of w']
  obtain rest where "?f' n (commit n (?f n (rows ! i)) (rows ! i)) = Invoke n inputs # rest" ..
  ultimately have "Invoke n inputs \<in> set (?f' (i + 2) (storeAfter effs rows ! i))"
    by (simp add: n)
  with i(1) have "Invoke n inputs
      \<in> set (concat (map (\<lambda>(j, row). ?f' (j + 2) row) (enumerate 0 (storeAfter effs rows))))"
    unfolding run_member by (auto simp: storeAfter_length)
  with cols show ?thesis by (simp add: genimage_run_def)
qed

lemma embedlogo_row_local:
  "2 \<le> k \<Longrightarrow> e \<in> set (embedlogo_row w a b c d o' g k row) \<Longrightarrow> n \<noteq> k
   \<Longrightarrow> applyToRow n e r = r"
  by (auto simp: embedlogo_row_def Let_def updateCell_def split: if_splits sum.splits)

lemma embedlogo_row_invoke:
  "Invoke n inputs \<in> set (embedlogo_row w a b c d o' g k row) \<Longrightarrow> n = k"
  by (auto simp: embedlogo_row_def Let_def updateCell_def split: if_splits sum.splits)

lemma embedlogo_run_retry:
  assumes run: "embedlogo_run w headers rows = Finished effs"
    and inv: "Invoke n inputs \<in> set effs"
    and fail: "collaborator w n inputs = Inl message"
  shows "\<exists>effs'. embedlogo_run w' headers (storeAfter effs rows) = Finished effs'
                  \<and> Invoke n inputs \<in> set effs'"
proof -
  let ?nh = "map normalizeHeader headers"
  from run obtain a b c d o' g
    where cols: "col ?nh ''EmbedLogo'' = Some a" "col ?nh ''LogoUrl'' = Some b"
      "col ?nh ''LogoPosition'' = Some c" "col ?nh ''LogoEmbedComplete'' = Some d"
      "col ?nh ''ImageWithLogoEmbedded'' = Some o'" "col ?nh ''GenImage'' = Some g"
    by (auto simp: embedlogo_run_def Let_def split: option.splits)
  let ?f = "embedlogo_row w a b c d o' g" and ?f' = "embedlogo_row w' a b c d o' g"
  from run cols have effs: "effs = concat (map (\<lambda>(j, row). ?f (j + 2) row) (enumerate 0 rows))"
    by (simp add: embedlogo_run_def Let_def)
  from inv obtain i where i: "i < length rows" "Invoke n inputs \<in> set (?f (i + 2) (rows ! i))"
    unfolding effs run_member by blast
  from embedlogo_row_invoke [OF i(2)] have n: "n = i + 2" .
  have "storeAfter effs rows ! i = commit (i + 2) (?f (i + 2) (rows ! i)) (rows ! i)"
    unfolding storeAfter_nth [OF i(1)] effs
    by (rule run_commit [OF embedlogo_row_local i(1)])
  moreover from embedlogo_retry_header
                  [OF cols(1,2,3,4,6) i(2) [unfolded n [symmetric]] fail, of w']
  obtain rest where "?f' n (commit n (?f n (rows ! i)) (rows ! i)) = Invoke n inputs # rest" ..
  ultimately have "Invoke n inputs \<in> set (?f' (i + 2) (storeAfter effs rows ! i))"
    by (simp add: n)
  with i(1) have "Invoke n inputs
      \<in> set (concat (map (\<lambda>(j, row). ?f' (j + 2) row) (enumerate 0 (storeAfter effs rows))))"
    unfolding run_member by (auto simp: storeAfter_length)
  with cols show ?thesis by (simp add: embedlogo_run_def Let_def)
qed

lemma embedtxt_row_local:
  "2 \<le> k \<Longrightarrow> e \<in> set (embedtxt_row w colMap numCols (k - 1) row) \<Longrightarrow> n \<noteq> k
   \<Longrightarrow> applyToRow n e r = r"
  by (auto simp: embedtxt_row_def Let_def split: if_splits sum.splits)

lemma embedtxt_row_invoke:
  "Invoke n inputs \<in> set (embedtxt_row w colMap numCols k row) \<Longrightarrow> n = k + 1"
  by (auto simp: embedtxt_row_def Let_def split: if_splits sum.splits)

lemma enumerate_from_1:
  "map (\<lambda>(rowIndex, row). f rowIndex row) (enumerate (Suc 0) body)
   = map (\<lambda>(j, row). f (Suc j) row) (enumerate 0 body)"
  using enumerate_Suc_eq [of 0 body] by (simp add: case_prod_unfold comp_def)

lemma embedtxt_run_retry:
  assumes run: "embedtxt_run w (headers # body) = Finished effs"
    and inv: "Invoke n inputs \<in> set effs"
    and fail: "collaborator w n inputs = Inl message"
  shows "\<exists>effs'. embedtxt_run w' (headers # storeAfter effs body) = Finished effs'
                  \<and> Invoke n (hd inputs # storeAfter effs body ! (n - 2)) \<in> set effs'"
proof -
  let ?cm = "headerIndex (map trim headers)"
  from run have found: "find (\<lambda>c. ?cm c = None) requiredCols = None"
    by (auto simp: embedtxt_run_def Let_def split: option.splits)
  let ?f = "\<lambda>k. embedtxt_row w ?cm (length headers) (k - 1)"
  let ?f' = "\<lambda>k. embedtxt_row w' ?cm (length headers) (k - 1)"
  from run found have effs: "effs = concat (map (\<lambda>(j, row). ?f (j + 2) row) (enumerate 0 body))"
    by (auto simp add: embedtxt_run_def Let_def enumerate_from_1)
  from inv obtain i where i: "i < length body" "Invoke n inputs \<in> set (?f (i + 2) (body ! i))"
    using run_member [where f = ?f and rows = body and e = "Invoke n inputs"]
    unfolding effs by auto
  then have i': "Invoke n inputs \<in> set (embedtxt_row w ?cm (length headers) (i + 1) (body ! i))"
    by simp
  from embedtxt_row_invoke [OF i'] have n: "n = i + 2" by simp
  have st: "storeAfter effs body ! i
            = commit (i + 1 + 1) (embedtxt_row w ?cm (length headers) (i + 1) (body ! i)) (body ! i)"
    unfolding storeAfter_nth [OF i(1)] effs
    using run_commit [where f = ?f, OF embedtxt_row_local i(1)] by simp
  from embedtxt_retry_header [OF found i' fail, of w']
  obtain rest where "embedtxt_row w' ?cm (length headers) (i + 1)
                       (commit (i + 1 + 1)
                          (embedtxt_row w ?cm (length headers) (i + 1) (body ! i)) (body ! i))
                     = Invoke (i + 1 + 1)
                         (hd inputs
                          # commit (i + 1 + 1)
                              (embedtxt_row w ?cm (length headers) (i + 1) (body ! i)) (body ! i))
                       # rest"
    by blast
  then have "Invoke n (hd inputs # storeAfter effs body ! i)
             \<in> set (?f' (i + 2) (storeAfter effs body ! i))"
    unfolding st [symmetric] by (simp add: n)
  with i(1) have "\<exists>i<length (storeAfter effs body).
      Invoke n (hd inputs # storeAfter effs body ! (n - 2))
        \<in> set (?f' (i + 2) (storeAfter effs body ! i))"
    by (auto simp: storeAfter_length n)
  then have "Invoke n (hd inputs # storeAfter effs body ! (n - 2))
      \<in> set (concat (map (\<lambda>(j, row). ?f' (j + 2) row) (enumerate 0 (storeAfter effs body))))"
    by (rule run_member [where f = ?f', THEN iffD2])
  with found show ?thesis by (simp add: embedtxt_run_def Let_def enumerate_from_1)
qed
lemma genimage_abort:
  assumes "''ImagePrompt'' \<notin> set headers \<or> ''GenImage'' \<notin> set headers
           \<or> ''GenComplete'' \<notin> set headers"
  shows "genimage_run w headers rows = Aborted ''Required columns not found in headers.''"
  using assms
  by (auto simp: genimage_run_def indexOf_None [symmetric] split: option.splits)

lemma embedlogo_abort:
  assumes "normalizeHeader name \<notin> set (map normalizeHeader headers)"
    and "name \<in> {''EmbedLogo'', ''LogoUrl'', ''LogoPosition'', ''LogoEmbedComplete'',
                 ''ImageWithLogoEmbedded'', ''GenImage''}"
  shows "embedlogo_run w headers rows = Aborted ''Required headers missing. Aborting.''"
proof -
  from assms(1) have "col (map normalizeHeader headers) name = None"
    by (simp add: col_def indexOf_None)
  with assms(2) show ?thesis
    by (auto simp: embedlogo_run_def Let_def split: option.splits)
qed

lemma embedtxt_abort:
  assumes "c \<in> set requiredCols" and "c \<notin> set (map trim headers)"
  shows "\<exists>c'. embedtxt_run w (headers # body) = Aborted (''Missing column: '' @ c')"
proof -
  from assms(2) have "headerIndex (map trim headers) c = None" by (simp add: headerIndex_None)
  with assms(1) have "find (\<lambda>c. headerIndex (map trim headers) c = None) requiredCols \<noteq> None"
    by (auto simp: find_None_iff)
  then show ?thesis by (auto simp: embedtxt_run_def Let_def)
qed

lemma posting_missing_column:
  assumes "name \<notin> set (map trim header)"
  shows "get (headerIndex (map trim header)) row name = []"
    and "updateSheet (headerIndex (map trim header)) n name v = []"
proof -
  from assms have "headerIndex (map trim header) name = None" by (simp add: headerIndex_None)
  then show "get (headerIndex (map trim header)) row name = []"
    and "updateSheet (headerIndex (map trim header)) n name v = []"
    by (simp_all add: get_def updateSheet_def)
qed

section \<open>The work-item claims on the stages\<close>

theorem media_priority_selection_witness:
  "rowChecks example_config (headerIndex post_header) post_row = Proceed
   \<and> selectMedia (mediaLinks (headerIndex post_header) post_row)
       = Some ''https://drive.example/file/d/abc''
   \<and> (\<exists>rest. postRow example_config example_world (headerIndex post_header) 2 post_row
                = Download ''https://drive.example/file/d/abc'' # rest)
   \<and> rowChecks example_config (headerIndex post_header) post_row_no_media = Proceed
   \<and> selectMedia (mediaLinks (headerIndex post_header) post_row_no_media) = None
   \<and> postRow example_config example_world (headerIndex post_header) 2 post_row_no_media
       = [Update ''H'' 2 ''failed: no media link'', Update ''I'' 2 ''yes'']
   \<and> Download ''https://drive.example/file/d/abc''
       \<in> set (postRow example_config offline_world (headerIndex post_header) 2 post_row)
   \<and> selectMedia [[], []] = None
   \<and> selectMedia [[], ''b'', ''c''] = Some ''b''"
proof -
  let ?hi = "headerIndex post_header"
  have k1: "Download ''https://drive.example/file/d/abc''
              \<in> set (postRow example_config offline_world ?hi 2 post_row)"
    by code_simp
  have "selectMedia (mediaLinks ?hi post_row) = Some ''https://drive.example/file/d/abc''"
    by (rule media_priority_selection
          [where cfg = example_config and w = offline_world and hi = ?hi and rowNum = 2
             and row = post_row and link = "''https://drive.example/file/d/abc''",
           THEN conjunct2, THEN conjunct2, THEN conjunct2, THEN conjunct2, THEN conjunct2,
           THEN conjunct2, THEN mp, OF k1])
  have k2: "\<forall>c\<in>set [[], []]. c = ([] :: string)" by simp
  have k3: "selectMedia [[], []] = None"
    by (rule media_priority_selection
          [where cs = "[[], []]", THEN conjunct2, THEN conjunct2, THEN conjunct1, THEN iffD2,
           OF k2])
  have k4: "selectMedia [[], ''b'', ''c''] = Some ''b''"
    by (rule media_priority_selection [THEN conjunct1])
  have k5: "\<exists>i<length [[], ''b'', ''c'']. [[], ''b'', ''c''] ! i = ''b'' \<and> ''b'' \<noteq> []
          \<and> (\<forall>j<i. [[], ''b'', ''c''] ! j = [])"
    by (rule media_priority_selection
          [where cs = "[[], ''b'', ''c'']" and x = "''b''", THEN conjunct2, THEN conjunct1,
           THEN iffD1, OF k4])
  have a: "rowChecks example_config ?hi post_row = Proceed" by code_simp
  have b: "selectMedia (mediaLinks ?hi post_row) = Some ''https://drive.example/file/d/abc''"
    by code_simp
  have c: "rowChecks example_config ?hi post_row_no_media = Proceed" by code_simp
  have d: "selectMedia (mediaLinks ?hi post_row_no_media) = None" by code_simp
  have e: "closeRow ?hi 2 ''failed: no media link''
           = [Update ''H'' 2 ''failed: no media link'', Update ''I'' 2 ''yes'']"
    by code_simp
  from media_priority_selection
         [where cfg = example_config and hi = ?hi and row = post_row
            and link = "''https://drive.example/file/d/abc''" and w = example_world
            and rowNum = 2] a b
  have f: "\<exists>rest. postRow example_config example_world ?hi 2 post_row
                  = Download ''https://drive.example/file/d/abc'' # rest"
    by blast
  from media_priority_selection
         [where cfg = example_config and hi = ?hi and row = post_row_no_media
            and w = example_world and rowNum = 2] c d
  have "postRow example_config example_world ?hi 2 post_row_no_media
        = closeRow ?hi 2 ''failed: no media link''"
    by blast
  with e have g: "postRow example_config example_world ?hi 2 post_row_no_media
        = [Update ''H'' 2 ''failed: no media link'', Update ''I'' 2 ''yes'']"
    by simp
  from a b f c d g k1 k3 k4 show ?thesis by blast
qed

theorem publish_threshold_witness:
  "rowChecks example_config (headerIndex post_header) post_row = Proceed
   \<and> convertISTToUTCUnix (get (headerIndex post_header) post_row ''PostDate(DD/MM/YY)'')
         (get (headerIndex post_header) post_row ''PostTime(HH:MM AM/PM)'')
       = Inr (Some 1749094200)
   \<and> clock example_world 2 = 1749094200 - 15 * 60
   \<and> (\<exists>k msg rest. postRow example_config example_world (headerIndex post_header) 2 post_row
         = Download ''https://drive.example/file/d/abc''
           # FbPost k True (Some 1749094200) msg # rest)
   \<and> clock late_world 2 = 1749094200 - 5 * 60
   \<and> (\<exists>k msg rest. postRow example_config late_world (headerIndex post_header) 2 post_row
         = Download ''https://drive.example/file/d/abc'' # FbPost k False None msg # rest)"
proof -
  let ?hi = "headerIndex post_header" and ?l = "''https://drive.example/file/d/abc''"
  have a: "rowChecks example_config ?hi post_row = Proceed" by code_simp
  have b: "selectMedia (mediaLinks ?hi post_row) = Some ?l" by code_simp
  have c: "downloadFileFromDrive example_world ?l = Some ''image/png''" by code_simp
  have c': "downloadFileFromDrive late_world ?l = Some ''image/png''" by code_simp
  have d: "convertISTToUTCUnix (get ?hi post_row ''PostDate(DD/MM/YY)'')
             (get ?hi post_row ''PostTime(HH:MM AM/PM)'') = Inr (Some 1749094200)"
    by code_simp
  have e: "\<not> DRY_RUN example_config" by code_simp
  have f: "clock example_world 2 = 1749094200 - 15 * 60" by code_simp
  have g: "clock late_world 2 = 1749094200 - 5 * 60" by code_simp
  from publish_threshold
         [where cfg = example_config and hi = ?hi and row = post_row and link = ?l
            and w = example_world and ct = "''image/png''" and t = 1749094200 and rowNum = 2]
       a b c d e
  have "\<exists>k msg rest. postRow example_config example_world ?hi 2 post_row
          = Download ?l
            # FbPost k (1749094200 - clock example_world 2 > 600)
                (if 1749094200 - clock example_world 2 > 600 then Some 1749094200 else None) msg
            # rest"
    by blast
  then have h: "\<exists>k msg rest. postRow example_config example_world ?hi 2 post_row
          = Download ?l # FbPost k True (Some 1749094200) msg # rest"
    by (simp add: f)
  from publish_threshold
         [where cfg = example_config and hi = ?hi and row = post_row and link = ?l
            and w = late_world and ct = "''image/png''" and t = 1749094200 and rowNum = 2]
       a b c' d e
  have "\<exists>k msg rest. postRow example_config late_world ?hi 2 post_row
          = Download ?l
            # FbPost k (1749094200 - clock late_world 2 > 600)
                (if 1749094200 - clock late_world 2 > 600 then Some 1749094200 else None) msg
            # rest"
    by blast
  then have i: "\<exists>k msg rest. postRow example_config late_world ?hi 2 post_row
          = Download ?l # FbPost k False None msg # rest"
    by (simp add: g)
  from a d f h g i show ?thesis by blast
qed

text \<open>
  Claim C3, as stated, fails for the global flag: only the posting stage reads
  \<^verbatim>\<open>AllProcessComplete\<close>. A row that has been posted, with the all-complete flag set, after
  its logo step had failed, is written again by the logo stage on the next run.
\<close>

theorem logo_stage_ignores_all_complete_flag:
  "indexOf logo_header ''AllProcessComplete'' = Some 6
   \<and> cell logo_row_posted 6 = ''yes''
   \<and> embedlogo_run example_world logo_header [logo_row_posted]
       = Finished [Update ''D'' 2 ''Error: LogoUrl missing'']"
  by code_simp

text \<open>
  Claim C3, amended. In each stage that has a completion flag, a row whose flag for that
  stage is set causes no effect at all, neither an update nor a call of a collaborator:
  in the posting stage when \<^verbatim>\<open>PostStatus\<close> is posted or scheduled or \<^verbatim>\<open>AllProcessComplete\<close>
  is yes (trimmed, in any case); in the image stage when \<^verbatim>\<open>GenComplete\<close> is exactly
  \<^verbatim>\<open>Complete\<close>; in the logo stage when \<^verbatim>\<open>LogoEmbedComplete\<close> is \<^verbatim>\<open>complete\<close> in any case; in the
  text stage when \<^verbatim>\<open>TextEmbedComplete\<close> is exactly \<^verbatim>\<open>Complete\<close>.
\<close>

theorem completed_row_is_skipped:
  "(toLowerCase (get hi row ''PostStatus'') = ''posted''
      \<or> toLowerCase (get hi row ''PostStatus'') = ''scheduled''
      \<or> toLowerCase (get hi row ''AllProcessComplete'') = ''yes'' \<longrightarrow>
    postRow cfg w hi n row = [])
   \<and> (cell row genCompleteCol = ''Complete'' \<longrightarrow>
        genimage_row w imagePromptCol genImageCol genCompleteCol n row = [])
   \<and> (toLowerCase (cell row completeCol) = ''complete'' \<longrightarrow>
        embedlogo_row w embedCol logoUrlCol logoPosCol completeCol outputCol genImageCol n row
        = [])
   \<and> (padRow numCols row ! the (colMap ''TextEmbedComplete'') = ''Complete'' \<longrightarrow>
        embedtxt_row w colMap numCols n row = [])"
  by (intro conjI impI; (rule postRow_skip genimage_skip embedlogo_skip embedtxt_skip); assumption)

theorem completed_row_is_skipped_witness:
  "toLowerCase (get (headerIndex post_header)
      (post_row @ [''Scheduled'']) ''PostStatus'') = ''scheduled''
   \<and> postRow example_config example_world (headerIndex post_header) 2
        (post_row @ [''Scheduled'']) = []
   \<and> cell [''a cat'', ''link'', ''Complete''] 2 = ''Complete''
   \<and> genimage_row example_world 0 1 2 2 [''a cat'', ''link'', ''Complete''] = []
   \<and> toLowerCase (cell [''yes'', ''logo'', '''', ''COMPLETE''] 3) = ''complete''
   \<and> embedlogo_row example_world 0 1 2 3 4 5 2 [''yes'', ''logo'', '''', ''COMPLETE''] = []
   \<and> padRow 11 [''yes'', ''text'', '''', '''', '''', '''', ''Complete'']
        ! the (headerIndex requiredCols ''TextEmbedComplete'') = ''Complete''
   \<and> embedtxt_row example_world (headerIndex requiredCols) 11 1
        [''yes'', ''text'', '''', '''', '''', '''', ''Complete''] = []"
proof -
  let ?hi = "headerIndex post_header" and ?r = "post_row @ [''Scheduled'']"
  let ?cm = "headerIndex requiredCols"
  let ?tr = "[''yes'', ''text'', '''', '''', '''', '''', ''Complete'']"
  have a: "toLowerCase (get ?hi ?r ''PostStatus'') = ''scheduled''" by code_simp
  have b: "cell [''a cat'', ''link'', ''Complete''] 2 = ''Complete''" by code_simp
  have c: "toLowerCase (cell [''yes'', ''logo'', '''', ''COMPLETE''] 3) = ''complete''"
    by code_simp
  have d: "padRow 11 ?tr ! the (?cm ''TextEmbedComplete'') = ''Complete''" by code_simp
  note t = completed_row_is_skipped
             [where hi = ?hi and row = ?r and cfg = example_config and w = example_world
                and n = 2]
  from t a have a': "postRow example_config example_world ?hi 2 ?r = []" by blast
  from completed_row_is_skipped
         [where row = "[''a cat'', ''link'', ''Complete'']" and genCompleteCol = 2
            and w = example_world and imagePromptCol = 0 and genImageCol = 1 and n = 2] b
  have b': "genimage_row example_world 0 1 2 2 [''a cat'', ''link'', ''Complete''] = []"
    by blast
  from completed_row_is_skipped
         [where row = "[''yes'', ''logo'', '''', ''COMPLETE'']" and completeCol = 3
            and w = example_world and embedCol = 0 and logoUrlCol = 1 and logoPosCol = 2
            and outputCol = 4 and genImageCol = 5 and n = 2] c
  have c': "embedlogo_row example_world 0 1 2 3 4 5 2 [''yes'', ''logo'', '''', ''COMPLETE'']
            = []"
    by blast
  from completed_row_is_skipped
         [where row = ?tr and numCols = 11 and colMap = ?cm and w = example_world and n = 1] d
  have d': "embedtxt_row example_world ?cm 11 1 ?tr = []"
    by blast
  from a a' b b' c c' d d' show ?thesis by blast
qed

text \<open>
  Claim C6, as stated, fails for the posting stage, which checks no column: \<^verbatim>\<open>get\<close> reads a
  missing column as empty and \<^verbatim>\<open>updateSheet\<close> returns without writing. With no
  \<^verbatim>\<open>PostStatus\<close> column the stage still processes the row: it downloads, posts, drops the
  status update and writes the all-complete flag.
\<close>

theorem posting_stage_runs_without_status_column:
  "''PostStatus'' \<notin> set (map trim post_header_no_status)
   \<and> main_post example_config example_world [post_header_no_status, post_row]
       = [Download ''https://drive.example/file/d/abc'',
          FbPost Photo True (Some 1749094200) ''Launch day #launch'',
          Update ''H'' 2 ''yes'']"
  by code_simp

text \<open>
  Claim C6, amended. The image, logo and text stages abort before any row is processed
  when a column they require is absent from the header they have just read (the logo stage
  compares normalised names, the text stage trimmed names). The posting stage does not
  validate its header: a column that is absent reads as the empty string and updates
  addressed to it are dropped, and the rows are processed.
\<close>

theorem missing_column_aborts_stage:
  "(''ImagePrompt'' \<notin> set headers \<or> ''GenImage'' \<notin> set headers
      \<or> ''GenComplete'' \<notin> set headers \<longrightarrow>
    genimage_run w headers rows = Aborted ''Required columns not found in headers.'')
   \<and> (normalizeHeader name \<notin> set (map normalizeHeader headers)
        \<and> name \<in> {''EmbedLogo'', ''LogoUrl'', ''LogoPosition'', ''LogoEmbedComplete'',
                    ''ImageWithLogoEmbedded'', ''GenImage''} \<longrightarrow>
        embedlogo_run w headers rows = Aborted ''Required headers missing. Aborting.'')
   \<and> (c \<in> set requiredCols \<and> c \<notin> set (map trim headers) \<longrightarrow>
        (\<exists>c'. embedtxt_run w (headers # body) = Aborted (''Missing column: '' @ c')))
   \<and> (column \<notin> set (map trim headers) \<longrightarrow>
        get (headerIndex (map trim headers)) row column = []
        \<and> updateSheet (headerIndex (map trim headers)) n column v = [])"
proof -
  have a: "''ImagePrompt'' \<notin> set headers \<or> ''GenImage'' \<notin> set headers
      \<or> ''GenComplete'' \<notin> set headers \<longrightarrow>
    genimage_run w headers rows = Aborted ''Required columns not found in headers.''"
    by (intro impI; rule genimage_abort)
  have b: "normalizeHeader name \<notin> set (map normalizeHeader headers)
        \<and> name \<in> {''EmbedLogo'', ''LogoUrl'', ''LogoPosition'', ''LogoEmbedComplete'',
                    ''ImageWithLogoEmbedded'', ''GenImage''} \<longrightarrow>
        embedlogo_run w headers rows = Aborted ''Required headers missing. Aborting.''"
    by (intro impI; elim conjE; rule embedlogo_abort)
  have c: "c \<in> set requiredCols \<and> c \<notin> set (map trim headers) \<longrightarrow>
        (\<exists>c'. embedtxt_run w (headers # body) = Aborted (''Missing column: '' @ c'))"
    by (intro impI; elim conjE; rule embedtxt_abort)
  have d: "column \<notin> set (map trim headers) \<longrightarrow>
        get (headerIndex (map trim headers)) row column = []
        \<and> updateSheet (headerIndex (map trim headers)) n column v = []"
    by (intro impI conjI; rule posting_missing_column)
  from a b c d show ?thesis by (intro conjI)
qed

theorem missing_column_aborts_stage_witness:
  "''GenComplete'' \<notin> set [''ImagePrompt'', ''GenImage'']
   \<and> genimage_run example_world [''ImagePrompt'', ''GenImage''] [[''a cat'']]
       = Aborted ''Required columns not found in headers.''
   \<and> normalizeHeader ''EmbedLogo'' \<notin> set (map normalizeHeader (tl logo_header))
   \<and> embedlogo_run example_world (tl logo_header) [logo_row_posted]
       = Aborted ''Required headers missing. Aborting.''
   \<and> ''EmbedText(yes/no)'' \<in> set requiredCols
   \<and> ''EmbedText(yes/no)'' \<notin> set (map trim (tl requiredCols))
   \<and> embedtxt_run example_world [tl requiredCols, text_row]
       = Aborted ''Missing column: EmbedText(yes/no)''
   \<and> ''PostStatus'' \<notin> set (map trim post_header_no_status)
   \<and> get (headerIndex (map trim post_header_no_status)) post_row ''PostStatus'' = []
   \<and> updateSheet (headerIndex (map trim post_header_no_status)) 2 ''PostStatus'' ''posted''
       = []"
proof -
  have a: "''GenComplete'' \<notin> set [''ImagePrompt'', ''GenImage'']" by simp
  have b: "normalizeHeader ''EmbedLogo'' \<notin> set (map normalizeHeader (tl logo_header))"
    by code_simp
  have c1: "''EmbedText(yes/no)'' \<in> set requiredCols" by code_simp
  have c2: "''EmbedText(yes/no)'' \<notin> set (map trim (tl requiredCols))" by code_simp
  have c0: "embedtxt_run example_world [tl requiredCols, text_row]
            = Aborted ''Missing column: EmbedText(yes/no)''"
    by code_simp
  from missing_column_aborts_stage
         [where c = "''EmbedText(yes/no)''" and headers = "tl requiredCols"
            and w = example_world and body = "[text_row]"] c1 c2
  have "\<exists>c'. embedtxt_run example_world [tl requiredCols, text_row]
               = Aborted (''Missing column: '' @ c')"
    by blast
  with c0 have c3: "embedtxt_run example_world [tl requiredCols, text_row]
            = Aborted ''Missing column: EmbedText(yes/no)''"
    by simp
  have d: "''PostStatus'' \<notin> set (map trim post_header_no_status)" by code_simp
  from missing_column_aborts_stage
         [where headers = "[''ImagePrompt'', ''GenImage'']" and w = example_world
            and rows = "[[''a cat'']]"] a
  have a': "genimage_run example_world [''ImagePrompt'', ''GenImage''] [[''a cat'']]
            = Aborted ''Required columns not found in headers.''"
    by blast
  from missing_column_aborts_stage
         [where headers = "tl logo_header" and name = "''EmbedLogo''" and w = example_world
            and rows = "[logo_row_posted]"] b
  have b': "embedlogo_run example_world (tl logo_header) [logo_row_posted]
            = Aborted ''Required headers missing. Aborting.''"
    by blast
  from missing_column_aborts_stage
         [where headers = post_header_no_status and column = "''PostStatus''"
            and row = post_row and n = 2 and v = "''posted''"] d
  have d': "get (headerIndex (map trim post_header_no_status)) post_row ''PostStatus'' = []
            \<and> updateSheet (headerIndex (map trim post_header_no_status)) 2 ''PostStatus''
                 ''posted'' = []"
    by blast
  from a a' b b' c1 c2 c3 d d' show ?thesis by blast
qed

text \<open>
  Claim C7, as stated, fails outside the posting stage. When image generation fails, the
  image stage writes the whole error message (here 300 characters after the prefix) to
  \<^verbatim>\<open>GenComplete\<close> and nothing else; it does not write the all-complete flag, and on the next
  run the row, with that status in place, is generated again.
\<close>

theorem image_stage_failure_is_retried:
  "genimage_run failing_world image_header [[''a cat'']]
     = Finished [Invoke 2 [''a cat''], Update ''C'' 2 (''Error: '' @ replicate 300 CHR ''x'')]
   \<and> length (''Error: '' @ replicate 300 CHR ''x'') = 307
   \<and> commit 2 [Invoke 2 [''a cat''], Update ''C'' 2 (''Error: '' @ replicate 300 CHR ''x'')]
        [''a cat'']
       = [''a cat'', '''', ''Error: '' @ replicate 300 CHR ''x'']
   \<and> genimage_run failing_world image_header
        [[''a cat'', '''', ''Error: '' @ replicate 300 CHR ''x'']]
       = Finished [Invoke 2 [''a cat''], Update ''C'' 2 (''Error: '' @ replicate 300 CHR ''x'')]"
  by code_simp

text \<open>
  Claim C7, amended. In the posting stage a row whose download or post fails is closed:
  the only updates issued are a failure status (for a failed post, \<^verbatim>\<open>failed: \<close> followed by
  the first 200 characters of the error message) and the all-complete flag; no text the
  stage writes is longer than 208 characters; and when the sheet has an
  \<^verbatim>\<open>AllProcessComplete\<close> column, a row closed this way is skipped by the next run, whatever its
  configuration and world. In the image, logo and text stages a failed step writes
  \<^verbatim>\<open>Error: \<close> followed by the whole message to the stage's own completion column and nothing
  else; in the content stage a failed generation writes nothing. In the image, logo and
  text stages the failed row is processed again on the next invocation: with the columns
  found in the header the way the stage finds them, the row as the failed run leaves it in
  the store makes the stage, whatever the world of the next run, call its generation or
  rendering step for that row again, on the same image prompt (image stage), the same base
  image, logo link and position (logo stage), or the same image link and the row as it now
  stands (text stage). The same holds of whole runs: every call that failed in a run of
  one of these three stages is made again, for the same row, by the next run of the stage
  on the sheet as the first run left it.
\<close>

theorem failed_row_commit:
  "(FbPost k s t m \<in> set (postRow cfg w hi n row) \<and> fbPost w k s t m = Some fbMsg \<longrightarrow>
      filter isUpdate (postRow cfg w hi n row)
      = closeRow hi n (''failed: '' @ take 200 fbMsg))
   \<and> (Download l \<in> set (postRow cfg w hi n row) \<and> downloadFileFromDrive w l = None \<longrightarrow>
        filter isUpdate (postRow cfg w hi n row) = closeRow hi n ''failed: download error'')
   \<and> (e \<in> set (postRow cfg w hi n row) \<and> x \<in> set (written e) \<longrightarrow> length x \<le> 208)
   \<and> (hi ''AllProcessComplete'' = Some idx \<longrightarrow>
        postRow cfg' w' hi n (commit n (closeRow hi n status) row) = [])
   \<and> (Invoke n inputs \<in> set (genimage_row w imagePromptCol genImageCol genCompleteCol n row)
        \<and> collaborator w n inputs = Inl message \<longrightarrow>
        genimage_row w imagePromptCol genImageCol genCompleteCol n row
        = [Invoke n inputs, updateCell genCompleteCol n (''Error: '' @ message)])
   \<and> (Invoke n inputs
          \<in> set (embedlogo_row w embedCol logoUrlCol logoPosCol completeCol outputCol
                    genImageCol n row)
        \<and> collaborator w n inputs = Inl message \<longrightarrow>
        embedlogo_row w embedCol logoUrlCol logoPosCol completeCol outputCol genImageCol n row
        = [Invoke n inputs, updateCell completeCol n (''Error: '' @ message)])
   \<and> (Invoke r inputs \<in> set (embedtxt_row w colMap numCols n row)
        \<and> collaborator w r inputs = Inl message \<longrightarrow>
        embedtxt_row w colMap numCols n row
        = [Invoke r inputs,
           UpdateRow (n + 1)
             ((padRow numCols row)
                [the (colMap ''TextEmbedComplete'') := ''Error: '' @ message])])
   \<and> (collaborator w n inputs = Inl message \<longrightarrow>
        genField w n column [] inputs = [Invoke n inputs])
   \<and> (indexOf headers ''ImagePrompt'' = Some imagePromptCol
        \<and> indexOf headers ''GenComplete'' = Some genCompleteCol
        \<and> Invoke n inputs \<in> set (genimage_row w imagePromptCol genImageCol genCompleteCol n row)
        \<and> collaborator w n inputs = Inl message \<longrightarrow>
        (\<exists>rest. genimage_row w' imagePromptCol genImageCol genCompleteCol n
                  (commit n (genimage_row w imagePromptCol genImageCol genCompleteCol n row) row)
                = Invoke n inputs # rest))
   \<and> (col normalized ''EmbedLogo'' = Some embedCol
        \<and> col normalized ''LogoUrl'' = Some logoUrlCol
        \<and> col normalized ''LogoPosition'' = Some logoPosCol
        \<and> col normalized ''LogoEmbedComplete'' = Some completeCol
        \<and> col normalized ''GenImage'' = Some genImageCol
        \<and> Invoke n inputs
            \<in> set (embedlogo_row w embedCol logoUrlCol logoPosCol completeCol outputCol
                      genImageCol n row)
        \<and> collaborator w n inputs = Inl message \<longrightarrow>
        (\<exists>rest. embedlogo_row w' embedCol logoUrlCol logoPosCol completeCol outputCol
                  genImageCol n
                  (commit n
                     (embedlogo_row w embedCol logoUrlCol logoPosCol completeCol outputCol
                        genImageCol n row) row)
                = Invoke n inputs # rest))
   \<and> (find (\<lambda>c. headerIndex (map trim headers) c = None) requiredCols = None
        \<and> Invoke r inputs
            \<in> set (embedtxt_row w (headerIndex (map trim headers)) (length headers) n row)
        \<and> collaborator w r inputs = Inl message \<longrightarrow>
        commit (n + 1)
          (embedtxt_row w (headerIndex (map trim headers)) (length headers) n row) row
        = (padRow (length headers) row)
            [the (headerIndex (map trim headers) ''TextEmbedComplete'') := ''Error: '' @ message]
        \<and> (\<exists>rest. embedtxt_row w' (headerIndex (map trim headers)) (length headers) n
                    (commit (n + 1)
                       (embedtxt_row w (headerIndex (map trim headers)) (length headers) n row)
                       row)
                  = Invoke (n + 1)
                      (hd inputs
                       # commit (n + 1)
                           (embedtxt_row w (headerIndex (map trim headers)) (length headers) n
                              row)
                           row)
                    # rest))
   \<and> (genimage_run w headers rows = Finished effs \<and> Invoke n inputs \<in> set effs
        \<and> collaborator w n inputs = Inl message \<longrightarrow>
        (\<exists>effs'. genimage_run w' headers (storeAfter effs rows) = Finished effs'
                  \<and> Invoke n inputs \<in> set effs'))
   \<and> (embedlogo_run w headers rows = Finished effs \<and> Invoke n inputs \<in> set effs
        \<and> collaborator w n inputs = Inl message \<longrightarrow>
        (\<exists>effs'. embedlogo_run w' headers (storeAfter effs rows) = Finished effs'
                  \<and> Invoke n inputs \<in> set effs'))
   \<and> (embedtxt_run w (headers # body) = Finished effs \<and> Invoke n inputs \<in> set effs
        \<and> collaborator w n inputs = Inl message \<longrightarrow>
        (\<exists>effs'. embedtxt_run w' (headers # storeAfter effs body) = Finished effs'
                  \<and> Invoke n (hd inputs # storeAfter effs body ! (n - 2)) \<in> set effs'))"
proof -
  have a: "FbPost k s t m \<in> set (postRow cfg w hi n row) \<and> fbPost w k s t m = Some fbMsg \<longrightarrow>
      filter isUpdate (postRow cfg w hi n row)
      = closeRow hi n (''failed: '' @ take 200 fbMsg)"
    by (intro impI; elim conjE; rule postRow_post_failure)
  have b: "Download l \<in> set (postRow cfg w hi n row) \<and> downloadFileFromDrive w l = None \<longrightarrow>
        filter isUpdate (postRow cfg w hi n row) = closeRow hi n ''failed: download error''"
    by (intro impI; elim conjE; rule postRow_download_failure)
  have c: "e \<in> set (postRow cfg w hi n row) \<and> x \<in> set (written e) \<longrightarrow> length x \<le> 208"
    by (intro impI; elim conjE; rule postRow_written_bounded)
  have d: "hi ''AllProcessComplete'' = Some idx \<longrightarrow>
        postRow cfg' w' hi n (commit n (closeRow hi n status) row) = []"
    by (intro impI; rule postRow_closed_skipped)
  have f: "Invoke n inputs \<in> set (genimage_row w imagePromptCol genImageCol genCompleteCol n row)
        \<and> collaborator w n inputs = Inl message \<longrightarrow>
        genimage_row w imagePromptCol genImageCol genCompleteCol n row
        = [Invoke n inputs, updateCell genCompleteCol n (''Error: '' @ message)]"
    by (intro impI; elim conjE; rule genimage_failure)
  have g: "Invoke n inputs
          \<in> set (embedlogo_row w embedCol logoUrlCol logoPosCol completeCol outputCol
                    genImageCol n row)
        \<and> collaborator w n inputs = Inl message \<longrightarrow>
        embedlogo_row w embedCol logoUrlCol logoPosCol completeCol outputCol genImageCol n row
        = [Invoke n inputs, updateCell completeCol n (''Error: '' @ message)]"
    by (intro impI; elim conjE; rule embedlogo_failure)
  have h: "Invoke r inputs \<in> set (embedtxt_row w colMap numCols n row)
        \<and> collaborator w r inputs = Inl message \<longrightarrow>
        embedtxt_row w colMap numCols n row
        = [Invoke r inputs,
           UpdateRow (n + 1)
             ((padRow numCols row)
                [the (colMap ''TextEmbedComplete'') := ''Error: '' @ message])]"
    by (intro impI; elim conjE; rule embedtxt_failure)
  have i: "collaborator w n inputs = Inl message \<longrightarrow>
        genField w n column [] inputs = [Invoke n inputs]"
    by (intro impI; rule genField_failure)
  have j1: "indexOf headers ''ImagePrompt'' = Some imagePromptCol
        \<and> indexOf headers ''GenComplete'' = Some genCompleteCol
        \<and> Invoke n inputs \<in> set (genimage_row w imagePromptCol genImageCol genCompleteCol n row)
        \<and> collaborator w n inputs = Inl message \<longrightarrow>
        (\<exists>rest. genimage_row w' imagePromptCol genImageCol genCompleteCol n
                  (commit n (genimage_row w imagePromptCol genImageCol genCompleteCol n row) row)
                = Invoke n inputs # rest)"
    by (intro impI; elim conjE; rule genimage_retry_header; assumption)
  have j2: "col normalized ''EmbedLogo'' = Some embedCol
        \<and> col normalized ''LogoUrl'' = Some logoUrlCol
        \<and> col normalized ''LogoPosition'' = Some logoPosCol
        \<and> col normalized ''LogoEmbedComplete'' = Some completeCol
        \<and> col normalized ''GenImage'' = Some genImageCol
        \<and> Invoke n inputs
            \<in> set (embedlogo_row w embedCol logoUrlCol logoPosCol completeCol outputCol
                      genImageCol n row)
        \<and> collaborator w n inputs = Inl message \<longrightarrow>
        (\<exists>rest. embedlogo_row w' embedCol logoUrlCol logoPosCol completeCol outputCol
                  genImageCol n
                  (commit n
                     (embedlogo_row w embedCol logoUrlCol logoPosCol completeCol outputCol
                        genImageCol n row) row)
                = Invoke n inputs # rest)"
    by (intro impI; elim conjE; rule embedlogo_retry_header; assumption)
  have j3: "find (\<lambda>c. headerIndex (map trim headers) c = None) requiredCols = None
        \<and> Invoke r inputs
            \<in> set (embedtxt_row w (headerIndex (map trim headers)) (length headers) n row)
        \<and> collaborator w r inputs = Inl message \<longrightarrow>
        commit (n + 1)
          (embedtxt_row w (headerIndex (map trim headers)) (length headers) n row) row
        = (padRow (length headers) row)
            [the (headerIndex (map trim headers) ''TextEmbedComplete'') := ''Error: '' @ message]
        \<and> (\<exists>rest. embedtxt_row w' (headerIndex (map trim headers)) (length headers) n
                    (commit (n + 1)
                       (embedtxt_row w (headerIndex (map trim headers)) (length headers) n row)
                       row)
                  = Invoke (n + 1)
                      (hd inputs
                       # commit (n + 1)
                           (embedtxt_row w (headerIndex (map trim headers)) (length headers) n
                              row)
                           row)
                    # rest)"
    by (intro impI; elim conjE; rule embedtxt_retry_header; assumption)
  have k1: "genimage_run w headers rows = Finished effs \<and> Invoke n inputs \<in> set effs
        \<and> collaborator w n inputs = Inl message \<longrightarrow>
        (\<exists>effs'. genimage_run w' headers (storeAfter effs rows) = Finished effs'
                  \<and> Invoke n inputs \<in> set effs')"
    by (intro impI; elim conjE; rule genimage_run_retry; assumption)
  have k2: "embedlogo_run w headers rows = Finished effs \<and> Invoke n inputs \<in> set effs
        \<and> collaborator w n inputs = Inl message \<longrightarrow>
        (\<exists>effs'. embedlogo_run w' headers (storeAfter effs rows) = Finished effs'
                  \<and> Invoke n inputs \<in> set effs')"
    by (intro impI; elim conjE; rule embedlogo_run_retry; assumption)
  have k3: "embedtxt_run w (headers # body) = Finished effs \<and> Invoke n inputs \<in> set effs
        \<and> collaborator w n inputs = Inl message \<longrightarrow>
        (\<exists>effs'. embedtxt_run w' (headers # storeAfter effs body) = Finished effs'
                  \<and> Invoke n (hd inputs # storeAfter effs body ! (n - 2)) \<in> set effs')"
    by (intro impI; elim conjE; rule embedtxt_run_retry; assumption)
  from a b c d f g h i j1 j2 j3 k1 k2 k3 show ?thesis by (intro conjI)
qed

theorem failed_row_commit_witness:
  "FbPost Photo True (Some 1749094200) ''Launch day #launch''
     \<in> set (postRow example_config failing_world (headerIndex post_header) 2 post_row)
   \<and> fbPost failing_world Photo True (Some 1749094200) ''Launch day #launch''
       = Some ''(#200) Permissions error''
   \<and> filter isUpdate (postRow example_config failing_world (headerIndex post_header) 2 post_row)
       = [Update ''H'' 2 ''failed: (#200) Permissions error'', Update ''I'' 2 ''yes'']
   \<and> length ''failed: (#200) Permissions error'' \<le> 208
   \<and> Download ''https://drive.example/file/d/abc''
       \<in> set (postRow example_config offline_world (headerIndex post_header) 2 post_row)
   \<and> downloadFileFromDrive offline_world ''https://drive.example/file/d/abc'' = None
   \<and> filter isUpdate (postRow example_config offline_world (headerIndex post_header) 2 post_row)
       = [Update ''H'' 2 ''failed: download error'', Update ''I'' 2 ''yes'']
   \<and> headerIndex post_header ''AllProcessComplete'' = Some 8
   \<and> postRow example_config example_world (headerIndex post_header) 2
        (commit 2 (closeRow (headerIndex post_header) 2 ''failed: download error'') post_row)
       = []
   \<and> genimage_row failing_world 0 1 2 2 [''a cat'']
       = [Invoke 2 [''a cat''], updateCell 2 2 (''Error: '' @ replicate 300 CHR ''x'')]
   \<and> embedlogo_row failing_world 0 1 2 3 4 5 2 [''yes'', ''logo'', '''', '''', '''', ''img'']
       = [Invoke 2 [''img'', ''logo'', ''''],
          updateCell 3 2 (''Error: '' @ replicate 300 CHR ''x'')]
   \<and> embedtxt_row failing_world (headerIndex requiredCols) 11 1 text_row
       = [Invoke 2 (''https://drive.example/file/d/abc'' # padRow 11 text_row),
          UpdateRow 2 ((padRow 11 text_row)[6 := ''Error: '' @ replicate 300 CHR ''x''])]
   \<and> genField failing_world 2 ''D'' [] [''caption'', ''Acme'', ''rockets'']
       = [Invoke 2 [''caption'', ''Acme'', ''rockets'']]
   \<and> indexOf image_header ''ImagePrompt'' = Some 0
   \<and> indexOf image_header ''GenComplete'' = Some 2
   \<and> (\<exists>rest. genimage_row example_world 0 1 2 2
                (commit 2 (genimage_row failing_world 0 1 2 2 [''a cat'']) [''a cat''])
              = Invoke 2 [''a cat''] # rest)
   \<and> col (map normalizeHeader logo_header) ''LogoEmbedComplete'' = Some 3
   \<and> (\<exists>rest. embedlogo_row example_world 0 1 2 3 4 5 2
                (commit 2
                   (embedlogo_row failing_world 0 1 2 3 4 5 2
                      [''yes'', ''logo'', '''', '''', '''', ''img''])
                   [''yes'', ''logo'', '''', '''', '''', ''img''])
              = Invoke 2 [''img'', ''logo'', ''''] # rest)
   \<and> find (\<lambda>c. headerIndex (map trim requiredCols) c = None) requiredCols = None
   \<and> commit (1 + 1)
         (embedtxt_row failing_world (headerIndex (map trim requiredCols))
            (length requiredCols) 1 text_row)
         text_row
       = (padRow (length requiredCols) text_row)
           [the (headerIndex (map trim requiredCols) ''TextEmbedComplete'')
              := ''Error: '' @ replicate 300 CHR ''x'']
   \<and> (\<exists>rest. embedtxt_row example_world (headerIndex (map trim requiredCols))
                (length requiredCols) 1
                (commit (1 + 1)
                   (embedtxt_row failing_world (headerIndex (map trim requiredCols))
                      (length requiredCols) 1 text_row)
                   text_row)
              = Invoke (1 + 1)
                  (hd (''https://drive.example/file/d/abc'' # padRow 11 text_row)
                   # commit (1 + 1)
                       (embedtxt_row failing_world (headerIndex (map trim requiredCols))
                          (length requiredCols) 1 text_row)
                       text_row)
                # rest)
   \<and> genimage_run failing_world image_header [[''a cat'']]
       = Finished [Invoke 2 [''a cat''], Update ''C'' 2 (''Error: '' @ replicate 300 CHR ''x'')]
   \<and> (\<exists>effs'. genimage_run example_world image_header
                (storeAfter
                   [Invoke 2 [''a cat''], Update ''C'' 2 (''Error: '' @ replicate 300 CHR ''x'')]
                   [[''a cat'']])
              = Finished effs'
              \<and> Invoke 2 [''a cat''] \<in> set effs')
   \<and> embedlogo_run failing_world logo_header [[''yes'', ''logo'', '''', '''', '''', ''img'']]
       = Finished [Invoke 2 [''img'', ''logo'', ''''],
                   Update ''D'' 2 (''Error: '' @ replicate 300 CHR ''x'')]
   \<and> (\<exists>effs'. embedlogo_run example_world logo_header
                (storeAfter
                   [Invoke 2 [''img'', ''logo'', ''''],
                    Update ''D'' 2 (''Error: '' @ replicate 300 CHR ''x'')]
                   [[''yes'', ''logo'', '''', '''', '''', ''img'']])
              = Finished effs'
              \<and> Invoke 2 [''img'', ''logo'', ''''] \<in> set effs')
   \<and> embedtxt_run failing_world [requiredCols, text_row]
       = Finished [Invoke 2 (''https://drive.example/file/d/abc'' # padRow 11 text_row),
                   UpdateRow 2
                     ((padRow 11 text_row)[6 := ''Error: '' @ replicate 300 CHR ''x''])]
   \<and> (\<exists>effs'. embedtxt_run example_world
                (requiredCols
                 # storeAfter
                     [Invoke 2 (''https://drive.example/file/d/abc'' # padRow 11 text_row),
                      UpdateRow 2
                        ((padRow 11 text_row)[6 := ''Error: '' @ replicate 300 CHR ''x''])]
                     [text_row])
              = Finished effs'
              \<and> Invoke 2
                  (hd (''https://drive.example/file/d/abc'' # padRow 11 text_row)
                   # storeAfter
                       [Invoke 2 (''https://drive.example/file/d/abc'' # padRow 11 text_row),
                        UpdateRow 2
                          ((padRow 11 text_row)[6 := ''Error: '' @ replicate 300 CHR ''x''])]
                       [text_row] ! (2 - 2))
                \<in> set effs')"
proof -
  let ?hi = "headerIndex post_header" and ?l = "''https://drive.example/file/d/abc''"
  let ?m = "''Launch day #launch''" and ?x = "replicate 300 CHR ''x''"
  let ?cm = "headerIndex requiredCols"
  have a1: "FbPost Photo True (Some 1749094200) ?m
              \<in> set (postRow example_config failing_world ?hi 2 post_row)"
    by code_simp
  have a2: "fbPost failing_world Photo True (Some 1749094200) ?m
            = Some ''(#200) Permissions error''"
    by code_simp
  have a3: "closeRow ?hi 2 (''failed: '' @ take 200 ''(#200) Permissions error'')
            = [Update ''H'' 2 ''failed: (#200) Permissions error'', Update ''I'' 2 ''yes'']"
    by code_simp
  have "filter isUpdate (postRow example_config failing_world ?hi 2 post_row)
        = closeRow ?hi 2 (''failed: '' @ take 200 ''(#200) Permissions error'')"
    by (rule failed_row_commit
         [where k = Photo and s = True and t = "Some 1749094200" and m = ?m
            and cfg = example_config and w = failing_world and hi = ?hi and n = 2
            and row = post_row and fbMsg = "''(#200) Permissions error''",
          THEN conjunct1, THEN mp, OF conjI [OF a1 a2]])
  with a3 have a4: "filter isUpdate (postRow example_config failing_world ?hi 2 post_row)
        = [Update ''H'' 2 ''failed: (#200) Permissions error'', Update ''I'' 2 ''yes'']"
    by simp
  have c1: "Update ''H'' 2 ''failed: (#200) Permissions error''
              \<in> set (postRow example_config failing_world ?hi 2 post_row)"
    by code_simp
  have c2: "''failed: (#200) Permissions error''
              \<in> set (written (Update ''H'' 2 ''failed: (#200) Permissions error''))"
    by simp
  have c3: "length ''failed: (#200) Permissions error'' \<le> 208"
    by (rule failed_row_commit
         [where e = "Update ''H'' 2 ''failed: (#200) Permissions error''"
            and x = "''failed: (#200) Permissions error''"
            and cfg = example_config and w = failing_world and hi = ?hi and n = 2
            and row = post_row,
          THEN conjunct2, THEN conjunct2, THEN conjunct1, THEN mp, OF conjI [OF c1 c2]])
  have b1: "Download ?l \<in> set (postRow example_config offline_world ?hi 2 post_row)"
    by code_simp
  have b2: "downloadFileFromDrive offline_world ?l = None" by code_simp
  have b3: "closeRow ?hi 2 ''failed: download error''
            = [Update ''H'' 2 ''failed: download error'', Update ''I'' 2 ''yes'']"
    by code_simp
  have "filter isUpdate (postRow example_config offline_world ?hi 2 post_row)
        = closeRow ?hi 2 ''failed: download error''"
    by (rule failed_row_commit
         [where l = ?l and cfg = example_config and w = offline_world and hi = ?hi and n = 2
            and row = post_row,
          THEN conjunct2, THEN conjunct1, THEN mp, OF conjI [OF b1 b2]])
  with b3 have b4: "filter isUpdate (postRow example_config offline_world ?hi 2 post_row)
        = [Update ''H'' 2 ''failed: download error'', Update ''I'' 2 ''yes'']"
    by simp
  have d1: "?hi ''AllProcessComplete'' = Some 8" by code_simp
  have d2: "postRow example_config example_world ?hi 2
              (commit 2 (closeRow ?hi 2 ''failed: download error'') post_row) = []"
    by (rule failed_row_commit
         [where hi = ?hi and idx = 8 and cfg' = example_config and w' = example_world
            and n = 2 and status = "''failed: download error''" and row = post_row,
          THEN conjunct2, THEN conjunct2, THEN conjunct2, THEN conjunct1, THEN mp, OF d1])
  have f1: "Invoke 2 [''a cat''] \<in> set (genimage_row failing_world 0 1 2 2 [''a cat''])"
    by code_simp
  have f2: "collaborator failing_world 2 [''a cat''] = Inl ?x" by code_simp
  have f3: "genimage_row failing_world 0 1 2 2 [''a cat'']
            = [Invoke 2 [''a cat''], updateCell 2 2 (''Error: '' @ ?x)]"
    by (rule failed_row_commit
         [where n = 2 and inputs = "[''a cat'']" and w = failing_world and imagePromptCol = 0
            and genImageCol = 1 and genCompleteCol = 2 and row = "[''a cat'']"
            and message = ?x,
          THEN conjunct2, THEN conjunct2, THEN conjunct2, THEN conjunct2, THEN conjunct1, THEN mp, OF conjI [OF f1 f2]])
  let ?lr = "[''yes'', ''logo'', '''', '''', '''', ''img'']"
  have g1: "Invoke 2 [''img'', ''logo'', '''']
              \<in> set (embedlogo_row failing_world 0 1 2 3 4 5 2 ?lr)"
    by code_simp
  have g2: "collaborator failing_world 2 [''img'', ''logo'', ''''] = Inl ?x" by code_simp
  have g3: "embedlogo_row failing_world 0 1 2 3 4 5 2 ?lr
            = [Invoke 2 [''img'', ''logo'', ''''], updateCell 3 2 (''Error: '' @ ?x)]"
    by (rule failed_row_commit
         [where n = 2 and inputs = "[''img'', ''logo'', '''']" and w = failing_world
            and embedCol = 0 and logoUrlCol = 1 and logoPosCol = 2 and completeCol = 3
            and outputCol = 4 and genImageCol = 5 and row = ?lr and message = ?x,
          THEN conjunct2, THEN conjunct2, THEN conjunct2, THEN conjunct2, THEN conjunct2, THEN conjunct1, THEN mp, OF conjI [OF g1 g2]])
  have h1: "Invoke 2 (?l # padRow 11 text_row)
              \<in> set (embedtxt_row failing_world ?cm 11 1 text_row)"
    by code_simp
  have h2: "collaborator failing_world 2 (?l # padRow 11 text_row) = Inl ?x" by code_simp
  have h3: "the (?cm ''TextEmbedComplete'') = 6" by code_simp
  have "embedtxt_row failing_world ?cm 11 1 text_row
        = [Invoke 2 (?l # padRow 11 text_row),
           UpdateRow (1 + 1)
             ((padRow 11 text_row)[the (?cm ''TextEmbedComplete'') := ''Error: '' @ ?x])]"
    by (rule failed_row_commit
         [where r = 2 and inputs = "?l # padRow 11 text_row" and w = failing_world
            and colMap = ?cm and numCols = 11 and n = 1 and row = text_row
            and message = ?x,
          THEN conjunct2, THEN conjunct2, THEN conjunct2, THEN conjunct2, THEN conjunct2, THEN conjunct2, THEN conjunct1, THEN mp, OF conjI [OF h1 h2]])
  then have h4: "embedtxt_row failing_world ?cm 11 1 text_row
        = [Invoke 2 (?l # padRow 11 text_row),
           UpdateRow 2 ((padRow 11 text_row)[6 := ''Error: '' @ ?x])]"
    by (simp add: h3)
  have i1: "collaborator failing_world 2 [''caption'', ''Acme'', ''rockets''] = Inl ?x"
    by code_simp
  have i2: "genField failing_world 2 ''D'' [] [''caption'', ''Acme'', ''rockets'']
            = [Invoke 2 [''caption'', ''Acme'', ''rockets'']]"
    by (rule failed_row_commit
         [where w = failing_world and n = 2 and inputs = "[''caption'', ''Acme'', ''rockets'']"
            and message = ?x and column = "''D''",
          THEN conjunct2, THEN conjunct2, THEN conjunct2, THEN conjunct2, THEN conjunct2, THEN conjunct2, THEN conjunct2, THEN conjunct1, THEN mp, OF i1])
  have j1: "indexOf image_header ''ImagePrompt'' = Some 0" by code_simp
  have j2: "indexOf image_header ''GenComplete'' = Some 2" by code_simp
  have j3: "\<exists>rest. genimage_row example_world 0 1 2 2
                (commit 2 (genimage_row failing_world 0 1 2 2 [''a cat'']) [''a cat''])
              = Invoke 2 [''a cat''] # rest"
    by (rule failed_row_commit
         [where headers = image_header and n = 2 and inputs = "[''a cat'']"
            and w = failing_world and w' = example_world and imagePromptCol = 0
            and genImageCol = 1 and genCompleteCol = 2 and row = "[''a cat'']"
            and message = ?x,
          THEN conjunct2, THEN conjunct2, THEN conjunct2, THEN conjunct2, THEN conjunct2, THEN conjunct2, THEN conjunct2, THEN conjunct2, THEN conjunct1, THEN mp,
          OF conjI [OF j1 conjI [OF j2 conjI [OF f1 f2]]]])
  let ?nh = "map normalizeHeader logo_header"
  have k1: "col ?nh ''EmbedLogo'' = Some 0" by code_simp
  have k2: "col ?nh ''LogoUrl'' = Some 1" by code_simp
  have k3: "col ?nh ''LogoPosition'' = Some 2" by code_simp
  have k4: "col ?nh ''LogoEmbedComplete'' = Some 3" by code_simp
  have k5: "col ?nh ''GenImage'' = Some 5" by code_simp
  have k6: "\<exists>rest. embedlogo_row example_world 0 1 2 3 4 5 2
                (commit 2 (embedlogo_row failing_world 0 1 2 3 4 5 2 ?lr) ?lr)
              = Invoke 2 [''img'', ''logo'', ''''] # rest"
    by (rule failed_row_commit
         [where normalized = ?nh and n = 2 and inputs = "[''img'', ''logo'', '''']"
            and w = failing_world and w' = example_world
            and embedCol = 0 and logoUrlCol = 1 and logoPosCol = 2 and completeCol = 3
            and outputCol = 4 and genImageCol = 5 and row = ?lr and message = ?x,
          THEN conjunct2, THEN conjunct2, THEN conjunct2, THEN conjunct2, THEN conjunct2, THEN conjunct2, THEN conjunct2, THEN conjunct2, THEN conjunct2, THEN conjunct1, THEN mp,
          OF conjI [OF k1 conjI [OF k2 conjI [OF k3 conjI [OF k4 conjI [OF k5
               conjI [OF g1 g2]]]]]]])
  let ?tm = "headerIndex (map trim requiredCols)"
  have l1: "find (\<lambda>c. ?tm c = None) requiredCols = None" by code_simp
  have l2: "Invoke 2 (?l # padRow 11 text_row)
              \<in> set (embedtxt_row failing_world ?tm (length requiredCols) 1 text_row)"
    by code_simp
  note l3 = failed_row_commit
         [where headers = requiredCols and r = 2 and inputs = "?l # padRow 11 text_row"
            and w = failing_world and w' = example_world and n = 1 and row = text_row
            and message = ?x,
          THEN conjunct2, THEN conjunct2, THEN conjunct2, THEN conjunct2, THEN conjunct2, THEN conjunct2, THEN conjunct2, THEN conjunct2, THEN conjunct2, THEN conjunct2, THEN conjunct1, THEN mp, OF conjI [OF l1 conjI [OF l2 h2]]]
  note l4 = l3 [THEN conjunct1] and l5 = l3 [THEN conjunct2]
  let ?ie = "[Invoke 2 [''a cat''], Update ''C'' 2 (''Error: '' @ ?x)]"
  have m1: "genimage_run failing_world image_header [[''a cat'']] = Finished ?ie"
    by code_simp
  have m2: "Invoke 2 [''a cat''] \<in> set ?ie" by simp
  note m3 = failed_row_commit
         [where w = failing_world and w' = example_world and headers = image_header
            and rows = "[[''a cat'']]" and effs = ?ie and n = 2 and inputs = "[''a cat'']"
            and message = ?x,
          THEN conjunct2, THEN conjunct2, THEN conjunct2, THEN conjunct2, THEN conjunct2, THEN conjunct2, THEN conjunct2, THEN conjunct2, THEN conjunct2, THEN conjunct2, THEN conjunct2, THEN conjunct1, THEN mp, OF conjI [OF m1 conjI [OF m2 f2]]]
  let ?le = "[Invoke 2 [''img'', ''logo'', ''''], Update ''D'' 2 (''Error: '' @ ?x)]"
  have n1: "embedlogo_run failing_world logo_header [?lr] = Finished ?le" by code_simp
  have n2: "Invoke 2 [''img'', ''logo'', ''''] \<in> set ?le" by simp
  note n3 = failed_row_commit
         [where w = failing_world and w' = example_world and headers = logo_header
            and rows = "[?lr]" and effs = ?le and n = 2
            and inputs = "[''img'', ''logo'', '''']" and message = ?x,
          THEN conjunct2, THEN conjunct2, THEN conjunct2, THEN conjunct2, THEN conjunct2, THEN conjunct2, THEN conjunct2, THEN conjunct2, THEN conjunct2, THEN conjunct2, THEN conjunct2, THEN conjunct2, THEN conjunct1, THEN mp, OF conjI [OF n1 conjI [OF n2 g2]]]
  let ?te = "[Invoke 2 (?l # padRow 11 text_row),
              UpdateRow 2 ((padRow 11 text_row)[6 := ''Error: '' @ ?x])]"
  have o1: "embedtxt_run failing_world [requiredCols, text_row] = Finished ?te" by code_simp
  have o2: "Invoke 2 (?l # padRow 11 text_row) \<in> set ?te" by simp
  note o3 = failed_row_commit
         [where w = failing_world and w' = example_world and headers = requiredCols
            and body = "[text_row]" and effs = ?te and n = 2
            and inputs = "?l # padRow 11 text_row" and message = ?x,
          THEN conjunct2, THEN conjunct2, THEN conjunct2, THEN conjunct2, THEN conjunct2, THEN conjunct2, THEN conjunct2, THEN conjunct2, THEN conjunct2, THEN conjunct2, THEN conjunct2, THEN conjunct2, THEN conjunct2, THEN mp, OF conjI [OF o1 conjI [OF o2 h2]]]
  from a1 a2 a4 c3 b1 b2 b4 d1 d2 f3 g3 h4 i2 j1 j2 j3 k4 k6 l1 l4 l5 m1 m3 n1 n3 o1 o3
  show ?thesis
    by (intro conjI)
qed

end
